theory Spec2Isabelle
  imports Main "HOL-Library.Multiset" "HOL-Library.AList"
begin

section \<open>JavaScript values used by the tournament core\<close>

text \<open>
  The embedding follows \<^verbatim>\<open>src/server.js\<close>. Conventions:
  \<^item> a JavaScript string is a \<open>string\<close>; a value that may be \<^verbatim>\<open>null\<close> or
    \<^verbatim>\<open>undefined\<close> is an \<open>option\<close>, with \<open>None\<close> for both;
  \<^item> JavaScript numbers that hold match statistics are modelled as unbounded \<open>int\<close>
    (the double-precision rounding beyond \<open>2^53\<close> is outside the model);
  \<^item> a plain object used as a dictionary (\<^verbatim>\<open>scoreboard\<close>, \<^verbatim>\<open>logos\<close>) is an association
    list of its own properties, in the order in which the keys were first written.
    JavaScript lists integer-like keys first; the statements below are about the records
    found under the keys and about sorted standings, and hold for any order of the keys.
    The key \<^verbatim>\<open>__proto__\<close> is no property in JavaScript (assigning to it replaces the
    prototype), so the statement about a team that gets a new record excludes that name;
  \<^item> every early \<^verbatim>\<open>return { error: ... }\<close> is an \<open>Inl\<close> of the type \<open>error\<close>, and
    the data that the function saves and returns is the \<open>Inr\<close>.
\<close>

text \<open>Truthiness of a string-or-null value: \<^verbatim>\<open>null\<close>, \<^verbatim>\<open>undefined\<close> and the empty
  string are falsy.\<close>

definition truthy :: "string option \<Rightarrow> bool" where
  "truthy v = (case v of None \<Rightarrow> False | Some s \<Rightarrow> s \<noteq> [])"

text \<open>The negation \<^verbatim>\<open>!v\<close>.\<close>

definition falsy :: "string option \<Rightarrow> bool" where
  "falsy v = (\<not> truthy v)"

text \<open>The decimal rendering of a non-negative integer, as a template literal
  \<^verbatim>\<open>`${r}`\<close> produces it.\<close>

definition digit_char :: "nat \<Rightarrow> char" where
  "digit_char d = ''0123456789'' ! d"

fun string_of_nat :: "nat \<Rightarrow> string" where
  "string_of_nat n =
     (if n < 10 then [digit_char n]
      else string_of_nat (n div 10) @ [digit_char (n mod 10)])"

declare string_of_nat.simps [simp del]

section \<open>Schedule generator\<close>

record fixture =
  f_id :: string
  f_home :: "string option"
  f_away :: "string option"

text \<open>The id of the fixture pushed at round \<open>r\<close>, slot \<open>i\<close>: \<^verbatim>\<open>`r${r}-m${i}`\<close>.\<close>

definition fixture_id :: "nat \<Rightarrow> nat \<Rightarrow> string" where
  "fixture_id r i = ''r'' @ string_of_nat r @ ''-m'' @ string_of_nat i"

text \<open>The inner loop of \<^verbatim>\<open>generateSchedule\<close>: for \<open>i\<close> from \<open>0\<close> below \<open>n / 2\<close>, pair
  \<^verbatim>\<open>participants[i]\<close> with \<^verbatim>\<open>participants[n - 1 - i]\<close> and push the fixture when both
  are truthy.\<close>

definition round_matches :: "nat \<Rightarrow> nat \<Rightarrow> string option list \<Rightarrow> fixture list" where
  "round_matches n r participants =
     concat (map (\<lambda>i.
        let home = participants ! i;
            away = participants ! (n - 1 - i)
        in if truthy home \<and> truthy away
           then [\<lparr>f_id = fixture_id r i, f_home = home, f_away = away\<rparr>]
           else [])
      [0..<n div 2])"

text \<open>\<^verbatim>\<open>const last = participants.pop(); participants.splice(1, 0, last);\<close>
  On an empty array \<^verbatim>\<open>pop\<close> yields \<^verbatim>\<open>undefined\<close>, which \<^verbatim>\<open>splice\<close> then inserts.\<close>

definition rotate_participants :: "string option list \<Rightarrow> string option list" where
  "rotate_participants participants =
     (case participants of
        [] \<Rightarrow> [None]
      | _ \<Rightarrow> (let l = last participants; rest = butlast participants
              in take 1 rest @ [l] @ drop 1 rest))"

text \<open>The outer loop \<^verbatim>\<open>for (let r = 0; r < n - 1; r++)\<close>, from round \<open>r\<close> on.\<close>

function rounds_from :: "nat \<Rightarrow> nat \<Rightarrow> string option list \<Rightarrow> fixture list list" where
  "rounds_from n r participants =
     (if r < n - 1
      then round_matches n r participants # rounds_from n (Suc r) (rotate_participants participants)
      else [])"
  by pat_completeness auto
termination
  by (relation "measure (\<lambda>(n, r, participants). n - 1 - r)") auto

declare rounds_from.simps [simp del]

definition generateSchedule :: "string list \<Rightarrow> fixture list list" where
  "generateSchedule teams =
     (let participants = map Some teams;
          participants = (if length participants mod 2 = 1 then participants @ [None]
                          else participants);
          n = length participants
      in rounds_from n 0 participants)"

text \<open>The participants array after the optional bye has been pushed (the first two lines of
  \<^verbatim>\<open>generateSchedule\<close>), named for use in the proofs.\<close>

definition padded :: "string list \<Rightarrow> string option list" where
  "padded teams = (if length teams mod 2 = 1 then map Some teams @ [None] else map Some teams)"

text \<open>The reading of "match indices are 0-based and contiguous within each round" that the
  specification gives: the ids of round \<open>r\<close> are \<^verbatim>\<open>r{r}-m0\<close>, \<^verbatim>\<open>r{r}-m1\<close>, ... up to the
  number of fixtures in that round.\<close>

definition ids_contiguous :: "fixture list list \<Rightarrow> bool" where
  "ids_contiguous schedule =
     (map (map f_id) schedule =
      map (\<lambda>r. map (fixture_id r) [0..<length (schedule ! r)]) [0..<length schedule])"

section \<open>Standings engine\<close>

record team_record =
  played :: int
  wins :: int
  draws :: int
  losses :: int
  goalsFor :: int
  goalsAgainst :: int
  goalDifference :: int
  points :: int
  logo :: "string option"

type_synonym scoreboard = "(string \<times> team_record) list"

text \<open>The object literal that \<^verbatim>\<open>createInitialScoreboard\<close> and \<^verbatim>\<open>ensureTeam\<close> both write.\<close>

definition zero_record :: "string option \<Rightarrow> team_record" where
  "zero_record l =
     \<lparr>played = 0, wins = 0, draws = 0, losses = 0, goalsFor = 0, goalsAgainst = 0,
      goalDifference = 0, points = 0, logo = l\<rparr>"

text \<open>\<^verbatim>\<open>logos[team] || null\<close>\<close>

definition or_null :: "string option \<Rightarrow> string option" where
  "or_null v = (if truthy v then v else None)"

text \<open>\<^verbatim>\<open>scoreboard[team] = {...}\<close> is \<^const>\<open>AList.update\<close>: it replaces the value of an
  existing key in place and appends a new key at the end.\<close>

definition createInitialScoreboard :: "string list \<Rightarrow> (string \<times> string) list \<Rightarrow> scoreboard" where
  "createInitialScoreboard teams logos =
     fold (\<lambda>team scoreboard.
             AList.update team (zero_record (or_null (map_of logos team))) scoreboard)
          teams []"

definition ensureTeam :: "string \<Rightarrow> scoreboard \<Rightarrow> scoreboard" where
  "ensureTeam team scoreboard =
     (case map_of scoreboard team of
        None \<Rightarrow> AList.update team (zero_record None) scoreboard
      | Some _ \<Rightarrow> scoreboard)"

text \<open>\<^verbatim>\<open>homeTeam\<close> and \<^verbatim>\<open>awayTeam\<close> are references into the scoreboard, so each assignment
  to one of their fields is an update of the record stored under that key
  (\<^const>\<open>AList.map_entry\<close>); the statements are kept in the order of the source, which also
  gives the source's result when both names are the same key.\<close>

definition applyMatchResult :: "scoreboard \<Rightarrow> string \<Rightarrow> string \<Rightarrow> int \<Rightarrow> int \<Rightarrow> scoreboard" where
  "applyMatchResult scoreboard home away homeScore awayScore =
     (let s = ensureTeam home scoreboard;
          s = ensureTeam away s;
          s = AList.map_entry home (\<lambda>t. t\<lparr>played := played t + 1\<rparr>) s;
          s = AList.map_entry away (\<lambda>t. t\<lparr>played := played t + 1\<rparr>) s;
          s = AList.map_entry home (\<lambda>t. t\<lparr>goalsFor := goalsFor t + homeScore\<rparr>) s;
          s = AList.map_entry home (\<lambda>t. t\<lparr>goalsAgainst := goalsAgainst t + awayScore\<rparr>) s;
          s = AList.map_entry away (\<lambda>t. t\<lparr>goalsFor := goalsFor t + awayScore\<rparr>) s;
          s = AList.map_entry away (\<lambda>t. t\<lparr>goalsAgainst := goalsAgainst t + homeScore\<rparr>) s;
          s = AList.map_entry home (\<lambda>t. t\<lparr>goalDifference := goalsFor t - goalsAgainst t\<rparr>) s;
          s = AList.map_entry away (\<lambda>t. t\<lparr>goalDifference := goalsFor t - goalsAgainst t\<rparr>) s
      in if homeScore > awayScore then
           (let s = AList.map_entry home (\<lambda>t. t\<lparr>wins := wins t + 1\<rparr>) s;
                s = AList.map_entry away (\<lambda>t. t\<lparr>losses := losses t + 1\<rparr>) s
            in AList.map_entry home (\<lambda>t. t\<lparr>points := points t + 3\<rparr>) s)
         else if homeScore < awayScore then
           (let s = AList.map_entry away (\<lambda>t. t\<lparr>wins := wins t + 1\<rparr>) s;
                s = AList.map_entry home (\<lambda>t. t\<lparr>losses := losses t + 1\<rparr>) s
            in AList.map_entry away (\<lambda>t. t\<lparr>points := points t + 3\<rparr>) s)
         else
           (let s = AList.map_entry home (\<lambda>t. t\<lparr>draws := draws t + 1\<rparr>) s;
                s = AList.map_entry away (\<lambda>t. t\<lparr>draws := draws t + 1\<rparr>) s;
                s = AList.map_entry home (\<lambda>t. t\<lparr>points := points t + 1\<rparr>) s
            in AList.map_entry away (\<lambda>t. t\<lparr>points := points t + 1\<rparr>) s))"


section \<open>Result ledger\<close>

record match_result =
  r_id :: string
  r_home :: string
  r_away :: string
  r_homeScore :: int
  r_awayScore :: int

record knockout_match =
  k_id :: string
  k_home :: "string option"
  k_away :: "string option"
  k_homeScore :: "int option"
  k_awayScore :: "int option"
  winner :: "string option"

record bracket =
  semiFinals :: "knockout_match list"
  final :: knockout_match

text \<open>The contents of a tournament's \<^verbatim>\<open>scoreboard.json\<close>. A field that is missing or
  \<^verbatim>\<open>null\<close> is \<open>None\<close>: the code tests \<^verbatim>\<open>Array.isArray(data.results)\<close>,
  \<^verbatim>\<open>!data.results\<close>, \<^verbatim>\<open>data.scoreboard || {}\<close> and \<^verbatim>\<open>data.knockout\<close>. The files that
  the server writes always hold a scoreboard object and a results array.\<close>

record scoreboard_data =
  scoreboard :: "scoreboard option"
  results :: "match_result list option"
  knockout :: "bracket option"

text \<open>The request body of \<^verbatim>\<open>update-score\<close>. The id and the two team names are strings, or
  \<open>None\<close> when the field is missing or \<^verbatim>\<open>null\<close>. The two scores are given as the strings
  that \<^verbatim>\<open>parseInt\<close> first converts its argument to: the JSON string \<^verbatim>\<open>"3.7"\<close> and the
  JSON number \<^verbatim>\<open>3.7\<close> are both \<open>''3.7''\<close>, a missing score is \<open>''undefined''\<close>.\<close>

record payload =
  p_id :: "string option"
  p_home :: "string option"
  p_away :: "string option"
  p_homeScore :: string
  p_awayScore :: string

datatype error =
    NoScoreboard            \<comment> \<open>\<^verbatim>\<open>No scoreboard found. Generate a schedule first.\<close>\<close>
  | InvalidTeams            \<comment> \<open>\<^verbatim>\<open>Invalid teams.\<close>\<close>
  | InvalidScores           \<comment> \<open>\<^verbatim>\<open>Scores must be non-negative integers.\<close>\<close>
  | NoTournamentData        \<comment> \<open>\<^verbatim>\<open>No tournament data found.\<close>\<close>
  | GroupStageIncomplete    \<comment> \<open>\<^verbatim>\<open>Group stage is not yet complete.\<close>\<close>
  | TooFewTeams             \<comment> \<open>\<^verbatim>\<open>At least four teams are required for semi finals.\<close>\<close>
  | NoBracket               \<comment> \<open>\<^verbatim>\<open>No knockout bracket found.\<close>\<close>
  | InvalidKnockoutPayload  \<comment> \<open>\<^verbatim>\<open>Invalid knockout update payload.\<close>\<close>
  | MatchNotFound           \<comment> \<open>\<^verbatim>\<open>Match not found in knockout bracket.\<close>\<close>
  | TypeError               \<comment> \<open>an uncaught JavaScript \<^verbatim>\<open>TypeError\<close>\<close>

text \<open>\<^verbatim>\<open>parseInt(s, 10)\<close> on a string: skip leading white space, read an optional sign, then
  the longest run of decimal digits; no digit gives \<^verbatim>\<open>NaN\<close>, which is \<open>None\<close>. Strings
  are taken to be ASCII, so the white space is TAB, LF, VT, FF, CR and SP.\<close>

definition is_space :: "char \<Rightarrow> bool" where
  "is_space c = (c \<in> set [CHR 0x09, CHR 0x0A, CHR 0x0B, CHR 0x0C, CHR 0x0D, CHR 0x20])"

definition is_digit :: "char \<Rightarrow> bool" where
  "is_digit c = (c \<in> set ''0123456789'')"

definition digit_value :: "char \<Rightarrow> nat" where
  "digit_value c = of_char c - 48"

definition parseInt :: "string \<Rightarrow> int option" where
  "parseInt s =
     (let t = dropWhile is_space s;
          negative = (t \<noteq> [] \<and> hd t = CHR ''-'');
          u = (if t \<noteq> [] \<and> (hd t = CHR ''-'' \<or> hd t = CHR ''+'') then tl t else t);
          z = takeWhile is_digit u
      in if z = [] then None
         else (let v = int (foldl (\<lambda>a c. 10 * a + digit_value c) 0 z)
               in Some (if negative then - v else v)))"

text \<open>\<^verbatim>\<open>findIndex\<close> followed by \<^verbatim>\<open>splice(existingIndex, 1)\<close>: the first element that
  satisfies the predicate is removed.\<close>

fun remove_first :: "('a \<Rightarrow> bool) \<Rightarrow> 'a list \<Rightarrow> 'a list" where
  "remove_first P [] = []"
| "remove_first P (x # xs) = (if P x then xs else x # remove_first P xs)"

text \<open>\<^verbatim>\<open>teamSet.add(x)\<close> on a \<^verbatim>\<open>Set\<close>, which keeps insertion order.\<close>

definition set_add :: "'a \<Rightarrow> 'a list \<Rightarrow> 'a list" where
  "set_add x xs = (if x \<in> set xs then xs else xs @ [x])"

text \<open>The team list of the recompute: the keys of the existing scoreboard, then the home and
  away team of every result.\<close>

definition collect_teams :: "string list \<Rightarrow> match_result list \<Rightarrow> string list" where
  "collect_teams existingTeams rs =
     fold (\<lambda>r teamSet. set_add (r_away r) (set_add (r_home r) teamSet)) rs
       (fold set_add existingTeams [])"

text \<open>The logos carried over: for every existing team whose record has a truthy logo.\<close>

definition collect_logos :: "scoreboard \<Rightarrow> string list \<Rightarrow> (string \<times> string) list" where
  "collect_logos sb existingTeams =
     fold (\<lambda>t logos.
             case map_of sb t of
               None \<Rightarrow> logos
             | Some rec \<Rightarrow> (case logo rec of
                              None \<Rightarrow> logos
                            | Some l \<Rightarrow> if l \<noteq> [] then AList.update t l logos else logos))
          existingTeams []"

text \<open>\<^verbatim>\<open>data.results.forEach((r) => applyMatchResult({ scoreboard: newScoreboard }, ...))\<close>\<close>

definition apply_all :: "match_result list \<Rightarrow> scoreboard \<Rightarrow> scoreboard" where
  "apply_all rs sb =
     fold (\<lambda>r sb. applyMatchResult sb (r_home r) (r_away r) (r_homeScore r) (r_awayScore r)) rs sb"

text \<open>The recompute at the end of \<^verbatim>\<open>updateMatchResult\<close>: a fresh scoreboard for the
  collected teams, then every result of the ledger applied in order.\<close>

definition recompute :: "scoreboard \<Rightarrow> match_result list \<Rightarrow> scoreboard" where
  "recompute old rs =
     (let existingTeams = map fst old;
          teams = collect_teams existingTeams rs;
          logos = collect_logos old existingTeams;
          newScoreboard = createInitialScoreboard teams logos
      in apply_all rs newScoreboard)"

text \<open>The standings in the words of the specification, as counts and sums over the ledger:
  every result counts as one match played for its home and for its away team; a team's goals
  for are its own scores and its goals against the scores of its opponents; the side with
  the strictly higher score has a win and the other a loss, equal scores are a draw for
  both; the goal difference is goals for minus goals against, and a win is worth three
  points and a draw one. The last argument is the logo, which is no part of the count.\<close>

definition tally :: "match_result list \<Rightarrow> string \<Rightarrow> string option \<Rightarrow> team_record" where
  "tally rs t l =
     (let at_home = filter (\<lambda>r. r_home r = t) rs;
          away = filter (\<lambda>r. r_away r = t) rs;
          w = int (length (filter (\<lambda>r. r_homeScore r > r_awayScore r) at_home))
              + int (length (filter (\<lambda>r. r_awayScore r > r_homeScore r) away));
          dr = int (length (filter (\<lambda>r. r_homeScore r = r_awayScore r) at_home))
               + int (length (filter (\<lambda>r. r_awayScore r = r_homeScore r) away));
          ls = int (length (filter (\<lambda>r. r_homeScore r < r_awayScore r) at_home))
               + int (length (filter (\<lambda>r. r_awayScore r < r_homeScore r) away));
          gf = sum_list (map r_homeScore at_home) + sum_list (map r_awayScore away);
          ga = sum_list (map r_awayScore at_home) + sum_list (map r_homeScore away)
      in \<lparr>played = int (length at_home) + int (length away),
          wins = w, draws = dr, losses = ls,
          goalsFor = gf, goalsAgainst = ga, goalDifference = gf - ga,
          points = 3 * w + dr, logo = l\<rparr>)"

text \<open>\<^verbatim>\<open>const matchId = id || `${home}-${away}`\<close>, read after the check that both names
  are truthy.\<close>

definition match_id :: "payload \<Rightarrow> string" where
  "match_id p = (if truthy (p_id p) then the (p_id p) else the (p_home p) @ ''-'' @ the (p_away p))"

definition updateMatchResult :: "scoreboard_data option \<Rightarrow> payload \<Rightarrow> error + scoreboard_data" where
  "updateMatchResult loaded p =
     (case loaded of
        None \<Rightarrow> Inl NoScoreboard
      | Some d \<Rightarrow>
          if falsy (p_home p) \<or> falsy (p_away p) \<or> p_home p = p_away p then Inl InvalidTeams
          else
            (case (parseInt (p_homeScore p), parseInt (p_awayScore p)) of
               (Some hScore, Some aScore) \<Rightarrow>
                 if hScore < 0 \<or> aScore < 0 then Inl InvalidScores
                 else
                   (let home = the (p_home p);
                        away = the (p_away p);
                        matchId = match_id p;
                        rs = (case results d of
                                Some rs \<Rightarrow> remove_first (\<lambda>r. r_id r = matchId) rs
                              | None \<Rightarrow> []);
                        rs = rs @ [\<lparr>r_id = matchId, r_home = home, r_away = away,
                                     r_homeScore = hScore, r_awayScore = aScore\<rparr>];
                        old = (case scoreboard d of Some sb \<Rightarrow> sb | None \<Rightarrow> [])
                    in Inr (d\<lparr>scoreboard := Some (recompute old rs), results := Some rs\<rparr>))
             | _ \<Rightarrow> Inl InvalidScores))"

section \<open>Knockout bracket engine\<close>

text \<open>The comparator handed to \<^verbatim>\<open>standings.sort\<close>. An entry of \<^verbatim>\<open>standings\<close> is the team
  name together with its record. \<^verbatim>\<open>localeCompare\<close> is a built-in whose result depends on the
  collation of the host; it is the parameter \<open>lc\<close>.\<close>

definition compare_standings ::
  "(string \<Rightarrow> string \<Rightarrow> int) \<Rightarrow> string \<times> team_record \<Rightarrow> string \<times> team_record \<Rightarrow> int" where
  "compare_standings lc a b =
     (if points (snd b) \<noteq> points (snd a) then points (snd b) - points (snd a)
      else if goalDifference (snd b) \<noteq> goalDifference (snd a)
        then goalDifference (snd b) - goalDifference (snd a)
      else if goalsFor (snd b) \<noteq> goalsFor (snd a) then goalsFor (snd b) - goalsFor (snd a)
      else lc (fst a) (fst b))"

text \<open>\<^verbatim>\<open>Array.prototype.sort\<close> is stable, and with a consistent comparator it returns the one
  stably sorted arrangement: \<open>a\<close> stays before \<open>b\<close> unless the comparator is positive.
  Insertion from the right computes that arrangement.\<close>

fun insert_sorted :: "('a \<Rightarrow> 'a \<Rightarrow> int) \<Rightarrow> 'a \<Rightarrow> 'a list \<Rightarrow> 'a list" where
  "insert_sorted cmp x [] = [x]"
| "insert_sorted cmp x (y # ys) = (if cmp x y \<le> 0 then x # y # ys else y # insert_sorted cmp x ys)"

definition array_sort :: "('a \<Rightarrow> 'a \<Rightarrow> int) \<Rightarrow> 'a list \<Rightarrow> 'a list" where
  "array_sort cmp xs = foldr (insert_sorted cmp) xs []"

text \<open>\<^verbatim>\<open>teams.map((t) => ({ team: t, ...data.scoreboard[t] }))\<close> followed by the sort.\<close>

definition sorted_standings ::
  "(string \<Rightarrow> string \<Rightarrow> int) \<Rightarrow> scoreboard \<Rightarrow> (string \<times> team_record) list" where
  "sorted_standings lc sb =
     array_sort (compare_standings lc)
       (List.map_filter (\<lambda>t. map_option (Pair t) (map_of sb t)) (map fst sb))"

text \<open>\<^verbatim>\<open>top4[i]\<close>: an index past the end reads \<^verbatim>\<open>undefined\<close>.\<close>

definition at_index :: "'a list \<Rightarrow> nat \<Rightarrow> 'a option" where
  "at_index xs i = (if i < length xs then Some (xs ! i) else None)"

definition new_match :: "string \<Rightarrow> string option \<Rightarrow> string option \<Rightarrow> knockout_match" where
  "new_match i h a =
     \<lparr>k_id = i, k_home = h, k_away = a, k_homeScore = None, k_awayScore = None, winner = None\<rparr>"

text \<open>\<^verbatim>\<open>totalMatches\<close>: the sum of the lengths of the rounds.\<close>

definition totalMatches :: "fixture list list \<Rightarrow> nat" where
  "totalMatches schedule = fold (\<lambda>round total. total + length round) schedule 0"

text \<open>\<^verbatim>\<open>generatePlayoff\<close>. The arguments are what \<^verbatim>\<open>loadSchedule\<close> and \<^verbatim>\<open>loadScoreboard\<close>
  return; the result is the bracket returned together with the data as stored afterwards.\<close>

definition generatePlayoff ::
  "(string \<Rightarrow> string \<Rightarrow> int) \<Rightarrow> fixture list list option \<Rightarrow> scoreboard_data option
     \<Rightarrow> error + (bracket \<times> scoreboard_data)" where
  "generatePlayoff lc loadedSchedule loaded =
     (case (loadedSchedule, loaded) of
        (Some schedule, Some d) \<Rightarrow>
          (case knockout d of
             Some k \<Rightarrow> Inr (k, d)
           | None \<Rightarrow>
               (case results d of
                  None \<Rightarrow> Inl GroupStageIncomplete
                | Some rs \<Rightarrow>
                    if length rs < totalMatches schedule then Inl GroupStageIncomplete
                    else
                      (case scoreboard d of
                         None \<Rightarrow> Inl TypeError
                       | Some sb \<Rightarrow>
                           if length (map fst sb) < 4 then Inl TooFewTeams
                           else
                             (let standings = sorted_standings lc sb;
                                  top4 = map fst (take 4 standings);
                                  k = \<lparr>semiFinals =
                                         [new_match ''sf1'' (at_index top4 0) (at_index top4 3),
                                          new_match ''sf2'' (at_index top4 1) (at_index top4 2)],
                                       final = new_match ''final'' None None\<rparr>
                              in Inr (k, d\<lparr>knockout := Some k\<rparr>)))))
      | _ \<Rightarrow> Inl NoTournamentData)"

text \<open>The ranking order in the words of the specification: descending points, then
  descending goal difference, then descending goals for, then ascending team name, where
  \<open>lc a b \<le> 0\<close> says that name \<open>a\<close> does not come after name \<open>b\<close>.\<close>

definition ranks_before ::
  "(string \<Rightarrow> string \<Rightarrow> int) \<Rightarrow> string \<times> team_record \<Rightarrow> string \<times> team_record \<Rightarrow> bool" where
  "ranks_before lc a b =
     (points (snd a) > points (snd b)
      \<or> (points (snd a) = points (snd b)
          \<and> (goalDifference (snd a) > goalDifference (snd b)
              \<or> (goalDifference (snd a) = goalDifference (snd b)
                  \<and> (goalsFor (snd a) > goalsFor (snd b)
                      \<or> (goalsFor (snd a) = goalsFor (snd b) \<and> lc (fst a) (fst b) \<le> 0))))))"

text \<open>No name stored in the bracket is the empty string, so that a name is truthy exactly when
  it is not \<^verbatim>\<open>null\<close>. Team names are never empty: the handler that creates a tournament skips
  empty names and \<^verbatim>\<open>updateMatchResult\<close> rejects them.\<close>

definition names_nonempty :: "bracket \<Rightarrow> bool" where
  "names_nonempty k =
     list_all (\<lambda>m. k_home m \<noteq> Some [] \<and> k_away m \<noteq> Some [] \<and> winner m \<noteq> Some [])
       (final k # semiFinals k)"

text \<open>The request body of \<^verbatim>\<open>update-knockout\<close>, with the scores as for \<^typ>\<open>payload\<close>.\<close>

record knockout_payload =
  kp_id :: "string option"
  kp_homeScore :: string
  kp_awayScore :: string

text \<open>The lookup of the match: the final for the id \<^verbatim>\<open>final\<close>, otherwise
  \<^verbatim>\<open>semiFinals.find((sf) => sf.id === id)\<close>.\<close>

definition find_match :: "bracket \<Rightarrow> string \<Rightarrow> knockout_match option" where
  "find_match k i = (if i = ''final'' then Some (final k) else List.find (\<lambda>sf. k_id sf = i) (semiFinals k))"

text \<open>The assignments to \<^verbatim>\<open>match.homeScore\<close>, \<^verbatim>\<open>match.awayScore\<close> and \<^verbatim>\<open>match.winner\<close>.\<close>

definition record_score :: "int \<Rightarrow> int \<Rightarrow> knockout_match \<Rightarrow> knockout_match" where
  "record_score h a m =
     (let m = m\<lparr>k_homeScore := Some h\<rparr>;
          m = m\<lparr>k_awayScore := Some a\<rparr>
      in if h > a then m\<lparr>winner := k_home m\<rparr>
         else if h < a then m\<lparr>winner := k_away m\<rparr>
         else m\<lparr>winner := k_home m\<rparr>)"

text \<open>\<^verbatim>\<open>match\<close> is a reference into the bracket: writing through it changes the element that
  \<^verbatim>\<open>find\<close> returned, the first semi-final with that id.\<close>

fun update_first :: "('a \<Rightarrow> bool) \<Rightarrow> ('a \<Rightarrow> 'a) \<Rightarrow> 'a list \<Rightarrow> 'a list" where
  "update_first P f [] = []"
| "update_first P f (x # xs) = (if P x then f x # xs else x # update_first P f xs)"

definition updateKnockout ::
  "scoreboard_data option \<Rightarrow> knockout_payload \<Rightarrow> error + (bracket \<times> scoreboard_data)" where
  "updateKnockout loaded p =
     (case loaded of
        None \<Rightarrow> Inl NoBracket
      | Some d \<Rightarrow>
          (case knockout d of
             None \<Rightarrow> Inl NoBracket
           | Some k \<Rightarrow>
               (case (parseInt (kp_homeScore p), parseInt (kp_awayScore p)) of
                  (Some h, Some a) \<Rightarrow>
                    if falsy (kp_id p) \<or> h < 0 \<or> a < 0 then Inl InvalidKnockoutPayload
                    else
                      (let i = the (kp_id p) in
                       case find_match k i of
                         None \<Rightarrow> Inl MatchNotFound
                       | Some _ \<Rightarrow>
                           (let k = (if i = ''final'' then k\<lparr>final := record_score h a (final k)\<rparr>
                                     else k\<lparr>semiFinals :=
                                            update_first (\<lambda>sf. k_id sf = i) (record_score h a)
                                              (semiFinals k)\<rparr>)
                            in if take 2 i = ''sf'' then
                                 (let decided = list_all (\<lambda>sf. truthy (winner sf)) (semiFinals k)
                                  in if decided \<and> falsy (k_home (final k))
                                        \<and> falsy (k_away (final k))
                                     then (case (at_index (semiFinals k) 0, at_index (semiFinals k) 1) of
                                             (Some sf0, Some sf1) \<Rightarrow>
                                               (let k = k\<lparr>final := (final k)\<lparr>k_home := winner sf0\<rparr>\<rparr>;
                                                    k = k\<lparr>final := (final k)\<lparr>k_away := winner sf1\<rparr>\<rparr>
                                                in Inr (k, d\<lparr>knockout := Some k\<rparr>))
                                           | _ \<Rightarrow> Inl TypeError)
                                     else Inr (k, d\<lparr>knockout := Some k\<rparr>))
                               else Inr (k, d\<lparr>knockout := Some k\<rparr>)))
                | _ \<Rightarrow> Inl InvalidKnockoutPayload)))"

section \<open>Example states\<close>

text \<open>The states below are used where a statement is evaluated at a concrete input. The
  tournament has the four teams \<open>A\<close>, \<open>B\<close>, \<open>C\<close>, \<open>D\<close> and no logos.\<close>

definition example_teams :: "string list" where
  "example_teams = [''A'', ''B'', ''C'', ''D'']"

text \<open>What the handler of \<^verbatim>\<open>POST /tournaments\<close> saves as \<^verbatim>\<open>scoreboard.json\<close>:
  \<^verbatim>\<open>{ scoreboard, results: [], knockout: null }\<close>.\<close>

definition example_created :: scoreboard_data where
  "example_created =
     \<lparr>scoreboard = Some (createInitialScoreboard example_teams []), results = Some [],
      knockout = None\<rparr>"

text \<open>The six fixtures of the schedule with \<open>A\<close> beating everyone, \<open>B\<close> beating \<open>C\<close> and \<open>D\<close>,
  and \<open>C\<close> beating \<open>D\<close>, all by one goal to nil.\<close>

definition example_ledger :: "match_result list" where
  "example_ledger =
     [\<lparr>r_id = ''r0-m0'', r_home = ''A'', r_away = ''D'', r_homeScore = 1, r_awayScore = 0\<rparr>,
      \<lparr>r_id = ''r0-m1'', r_home = ''B'', r_away = ''C'', r_homeScore = 1, r_awayScore = 0\<rparr>,
      \<lparr>r_id = ''r1-m0'', r_home = ''A'', r_away = ''C'', r_homeScore = 1, r_awayScore = 0\<rparr>,
      \<lparr>r_id = ''r1-m1'', r_home = ''D'', r_away = ''B'', r_homeScore = 0, r_awayScore = 1\<rparr>,
      \<lparr>r_id = ''r2-m0'', r_home = ''A'', r_away = ''B'', r_homeScore = 1, r_awayScore = 0\<rparr>,
      \<lparr>r_id = ''r2-m1'', r_home = ''C'', r_away = ''D'', r_homeScore = 1, r_awayScore = 0\<rparr>]"

text \<open>The stored data after these six results have been submitted.\<close>

definition example_complete :: scoreboard_data where
  "example_complete =
     \<lparr>scoreboard = Some (recompute (createInitialScoreboard example_teams []) example_ledger),
      results = Some example_ledger, knockout = None\<rparr>"

text \<open>The stored data after a seventh result, under an id that is not a fixture id, has been
  submitted as well.\<close>

definition example_extra :: match_result where
  "example_extra =
     \<lparr>r_id = ''friendly'', r_home = ''D'', r_away = ''A'', r_homeScore = 0, r_awayScore = 0\<rparr>"

definition example_overfull :: scoreboard_data where
  "example_overfull =
     \<lparr>scoreboard = Some (recompute (createInitialScoreboard example_teams [])
                          (example_ledger @ [example_extra])),
      results = Some (example_ledger @ [example_extra]), knockout = None\<rparr>"

text \<open>A stand-in for \<^verbatim>\<open>localeCompare\<close> in the examples: the comparison of two strings by
  character code, negative when the first string comes first.\<close>

fun codepoint_compare :: "string \<Rightarrow> string \<Rightarrow> int" where
  "codepoint_compare [] [] = 0"
| "codepoint_compare [] (y # ys) = - 1"
| "codepoint_compare (x # xs) [] = 1"
| "codepoint_compare (x # xs) (y # ys) =
     (if (of_char x :: nat) < of_char y then - 1
      else if (of_char y :: nat) < of_char x then 1
      else codepoint_compare xs ys)"

text \<open>The six submissions that lead from \<^const>\<open>example_created\<close> to
  \<^const>\<open>example_complete\<close>, the seventh that leads on to \<^const>\<open>example_overfull\<close>, and a
  sequence of requests, each loading what the one before has saved.\<close>

definition submission :: "match_result \<Rightarrow> payload" where
  "submission r =
     \<lparr>p_id = Some (r_id r), p_home = Some (r_home r), p_away = Some (r_away r),
      p_homeScore = string_of_nat (nat (r_homeScore r)),
      p_awayScore = string_of_nat (nat (r_awayScore r))\<rparr>"

fun submit_all :: "payload list \<Rightarrow> scoreboard_data \<Rightarrow> error + scoreboard_data" where
  "submit_all [] d = Inr d"
| "submit_all (p # ps) d =
     (case updateMatchResult (Some d) p of Inl e \<Rightarrow> Inl e | Inr d' \<Rightarrow> submit_all ps d')"

text \<open>The bracket seeded from \<^const>\<open>example_complete\<close>, and the stored data that holds it.\<close>

definition example_bracket :: bracket where
  "example_bracket =
     \<lparr>semiFinals = [new_match ''sf1'' (Some ''A'') (Some ''D''),
                    new_match ''sf2'' (Some ''B'') (Some ''C'')],
      final = new_match ''final'' None None\<rparr>"

definition example_seeded :: scoreboard_data where
  "example_seeded = example_complete\<lparr>knockout := Some example_bracket\<rparr>"

text \<open>The stored data when only the first five results have been submitted.\<close>

definition example_partial :: scoreboard_data where
  "example_partial =
     \<lparr>scoreboard = Some (recompute (createInitialScoreboard example_teams [])
                          (butlast example_ledger)),
      results = Some (butlast example_ledger), knockout = None\<rparr>"

text \<open>A second submission for the fixture \<^verbatim>\<open>r0-m0\<close>, now a 2-2 draw, and the stored data
  after it.\<close>

definition example_resubmit :: payload where
  "example_resubmit =
     \<lparr>p_id = Some ''r0-m0'', p_home = Some ''A'', p_away = Some ''D'',
      p_homeScore = ''2'', p_awayScore = ''2''\<rparr>"

definition example_resubmitted :: scoreboard_data where
  "example_resubmitted =
     (let rs = tl example_ledger
               @ [\<lparr>r_id = ''r0-m0'', r_home = ''A'', r_away = ''D'', r_homeScore = 2, r_awayScore = 2\<rparr>]
      in \<lparr>scoreboard = Some (recompute (createInitialScoreboard example_teams []) rs),
          results = Some rs, knockout = None\<rparr>)"

text \<open>A submission whose id is not a fixture id and whose teams are not in the tournament.\<close>

definition example_unknown :: payload where
  "example_unknown =
     \<lparr>p_id = Some ''friendly'', p_home = Some ''X'', p_away = Some ''Y'',
      p_homeScore = ''1'', p_awayScore = ''1''\<rparr>"

text \<open>A submission with the home score \<^verbatim>\<open>3.7\<close>.\<close>

definition example_fraction :: payload where
  "example_fraction =
     \<lparr>p_id = Some ''r0-m0'', p_home = Some ''A'', p_away = Some ''D'',
      p_homeScore = ''3.7'', p_awayScore = ''1''\<rparr>"

text \<open>The bracket after the first semi-final has been recorded as 2-1, and a 0-0 draw
  submitted for the second.\<close>

definition example_semi_recorded :: scoreboard_data where
  "example_semi_recorded =
     example_complete\<lparr>knockout := Some
       \<lparr>semiFinals = [record_score 2 1 (new_match ''sf1'' (Some ''A'') (Some ''D'')),
                      new_match ''sf2'' (Some ''B'') (Some ''C'')],
        final = new_match ''final'' None None\<rparr>\<rparr>"

definition example_draw :: knockout_payload where
  "example_draw = \<lparr>kp_id = Some ''sf2'', kp_homeScore = ''0'', kp_awayScore = ''0''\<rparr>"

section \<open>Proofs: fixture ids\<close>

lemma digit_char_inj: "a < 10 \<Longrightarrow> b < 10 \<Longrightarrow> digit_char a = digit_char b \<Longrightarrow> a = b"
proof -
  assume a: "a < 10" and b: "b < 10" and e: "digit_char a = digit_char b"
  have d: "distinct ''0123456789''" by simp
  have l: "length ''0123456789'' = 10" by simp
  from a b e d l show ?thesis
    unfolding digit_char_def using nth_eq_iff_index_eq[OF d, of a b] by simp
qed

lemma digit_char_in: "d < 10 \<Longrightarrow> digit_char d \<in> set ''0123456789''"
proof -
  assume "d < 10"
  then have "d < length ''0123456789''" by simp
  from nth_mem[OF this] show ?thesis unfolding digit_char_def .
qed

lemma string_of_nat_digits: "set (string_of_nat n) \<subseteq> set ''0123456789''"
proof (induction n rule: string_of_nat.induct)
  case (1 n)
  show ?case
  proof (cases "n < 10")
    case True
    have "string_of_nat n = [digit_char n]" using True by (subst string_of_nat.simps) simp
    then show ?thesis using digit_char_in[OF True] by simp
  next
    case False
    have e: "string_of_nat n = string_of_nat (n div 10) @ [digit_char (n mod 10)]"
      using False by (subst string_of_nat.simps) simp
    have "n mod 10 < 10" by simp
    from digit_char_in[OF this] 1[OF False] show ?thesis
      unfolding e by simp
  qed
qed

lemma string_of_nat_nonempty: "string_of_nat n \<noteq> []"
  by (subst string_of_nat.simps) simp

lemma string_of_nat_small: "n < 10 \<Longrightarrow> string_of_nat n = [digit_char n]"
  by (subst string_of_nat.simps) simp

lemma string_of_nat_big:
  "\<not> n < 10 \<Longrightarrow> string_of_nat n = string_of_nat (n div 10) @ [digit_char (n mod 10)]"
  by (subst string_of_nat.simps) simp

lemma string_of_nat_inj: "string_of_nat n = string_of_nat m \<Longrightarrow> n = m"
proof (induction n arbitrary: m rule: string_of_nat.induct)
  case (1 n)
  show ?case
  proof (cases "n < 10")
    case True
    note n = this
    show ?thesis
    proof (cases "m < 10")
      case True
      with n 1(2) show ?thesis
        by (simp add: string_of_nat_small digit_char_inj)
    next
      case False
      with n 1(2) string_of_nat_nonempty[of "m div 10"] show ?thesis
        by (simp add: string_of_nat_small string_of_nat_big Cons_eq_append_conv)
    qed
  next
    case False
    note n = this
    show ?thesis
    proof (cases "m < 10")
      case True
      with n 1(2) string_of_nat_nonempty[of "n div 10"] show ?thesis
        by (simp add: string_of_nat_small string_of_nat_big append_eq_Cons_conv)
    next
      case False
      with n 1(2) have e: "string_of_nat (n div 10) = string_of_nat (m div 10)"
        and d: "digit_char (n mod 10) = digit_char (m mod 10)"
        by (simp_all add: string_of_nat_big)
      from 1(1)[OF n e] have "n div 10 = m div 10" .
      moreover from d have "n mod 10 = m mod 10" by (auto intro: digit_char_inj)
      ultimately show ?thesis by (metis div_mult_mod_eq)
    qed
  qed
qed

lemma append_sep_eq:
  "c \<notin> set xs \<Longrightarrow> c \<notin> set xs' \<Longrightarrow> xs @ c # ys = xs' @ c # ys' \<Longrightarrow> xs = xs' \<and> ys = ys'"
proof (induction xs arbitrary: xs')
  case Nil
  then show ?case by (cases xs') auto
next
  case (Cons a xs)
  then show ?case by (cases xs') auto
qed

lemma fixture_id_inj: "fixture_id r i = fixture_id r' i' \<Longrightarrow> r = r' \<and> i = i'"
proof -
  assume "fixture_id r i = fixture_id r' i'"
  then have e: "string_of_nat r @ CHR ''-'' # (CHR ''m'' # string_of_nat i)
       = string_of_nat r' @ CHR ''-'' # (CHR ''m'' # string_of_nat i')"
    by (simp add: fixture_id_def)
  have "CHR ''-'' \<notin> set (string_of_nat r)" "CHR ''-'' \<notin> set (string_of_nat r')"
    using string_of_nat_digits[of r] string_of_nat_digits[of r'] by auto
  from append_sep_eq[OF this e] show ?thesis by (auto dest: string_of_nat_inj)
qed

section \<open>Proofs: the rounds of the schedule\<close>

lemma rotate_snoc: "rotate_participants (ys @ [y]) = take 1 ys @ [y] @ drop 1 ys"
  by (cases ys) (simp_all add: rotate_participants_def)

lemma rotate_length: "participants \<noteq> [] \<Longrightarrow> length (rotate_participants participants) = length participants"
  by (cases participants rule: rev_cases) (auto simp: rotate_snoc)

lemma rotate_mset: "participants \<noteq> [] \<Longrightarrow> mset (rotate_participants participants) = mset participants"
proof (cases participants rule: rev_cases)
  case Nil
  assume "participants \<noteq> []"
  with Nil show ?thesis by simp
next
  case (snoc ys y)
  have "mset (take 1 ys) + mset (drop 1 ys) = mset ys"
    by (metis append_take_drop_id mset_append)
  then show ?thesis using snoc
    by (simp add: rotate_snoc)
qed

lemma rotate_pow_length:
  "participants \<noteq> [] \<Longrightarrow> length ((rotate_participants ^^ k) participants) = length participants"
proof (induction k)
  case 0 show ?case by simp
next
  case (Suc k)
  then have "(rotate_participants ^^ k) participants \<noteq> []" by auto
  from rotate_length[OF this] Suc show ?case by simp
qed

lemma rotate_pow_mset:
  "participants \<noteq> [] \<Longrightarrow> mset ((rotate_participants ^^ k) participants) = mset participants"
proof (induction k)
  case 0 show ?case by simp
next
  case (Suc k)
  have "(rotate_participants ^^ k) participants \<noteq> []"
    using rotate_pow_length[OF Suc.prems, of k] Suc.prems by auto
  from rotate_mset[OF this] Suc show ?case by simp
qed

lemma rounds_from_closed:
  "rounds_from n r participants =
     map (\<lambda>k. round_matches n (r + k) ((rotate_participants ^^ k) participants)) [0..<n - 1 - r]"
proof (induction n r participants rule: rounds_from.induct)
  case (1 n r participants)
  show ?case
  proof (cases "r < n - 1")
    case False
    then show ?thesis by (subst rounds_from.simps) simp
  next
    case True
    then have "n - 1 - r = Suc (n - 1 - Suc r)" by simp
    then have u: "[0..<n - 1 - r] = 0 # map Suc [0..<n - 1 - Suc r]"
      by (simp add: upt_conv_Cons map_Suc_upt del: upt_Suc)
    have "rounds_from n r participants =
        round_matches n r participants # rounds_from n (Suc r) (rotate_participants participants)"
      using True by (subst rounds_from.simps) simp
    also have "rounds_from n (Suc r) (rotate_participants participants) =
        map (\<lambda>k. round_matches n (Suc r + k)
          ((rotate_participants ^^ k) (rotate_participants participants))) [0..<n - 1 - Suc r]"
      by (rule 1[OF True])
    also have "\<dots> = map (\<lambda>k. round_matches n (r + k) ((rotate_participants ^^ k) participants))
          (map Suc [0..<n - 1 - Suc r])"
      by (simp add: funpow_swap1 comp_def)
    finally show ?thesis unfolding u by simp
  qed
qed

lemma concat_cond_ids:
  "map f_id (concat (map (\<lambda>i. if P i then [\<lparr>f_id = g i, f_home = h i, f_away = a i\<rparr>] else []) js))
     = map g (filter P js)"
  by (induction js) auto

lemma round_matches_ids:
  "map f_id (round_matches n r participants) =
     map (fixture_id r)
       (filter (\<lambda>i. truthy (participants ! i) \<and> truthy (participants ! (n - 1 - i))) [0..<n div 2])"
  unfolding round_matches_def Let_def by (rule concat_cond_ids)

lemma concat_cond_length:
  "length (concat (map (\<lambda>i. if P i then [g i] else []) js)) = length (filter P js)"
  by (induction js) auto

lemma round_matches_length:
  "length (round_matches n r participants) =
     length (filter (\<lambda>i. truthy (participants ! i) \<and> truthy (participants ! (n - 1 - i))) [0..<n div 2])"
  unfolding round_matches_def Let_def by (rule concat_cond_length)

lemma round_matches_truthy:
  "f \<in> set (round_matches n r participants) \<Longrightarrow> truthy (f_home f) \<and> truthy (f_away f)"
  unfolding round_matches_def Let_def by (auto split: if_splits)

lemma length_filter_eq_upt: "length (filter (\<lambda>i. i = k) [0..<h]) = (if k < h then 1 else 0)"
  by (induction h) auto

lemma length_filter_neq_upt: "k < h \<Longrightarrow> length (filter (\<lambda>i. i \<noteq> k) [0..<h]) = h - 1"
proof -
  assume k: "k < h"
  have "length (filter (\<lambda>i. i \<noteq> k) [0..<h]) + length (filter (\<lambda>i. \<not> i \<noteq> k) [0..<h]) = h"
    using sum_length_filter_compl[of "\<lambda>i. i \<noteq> k" "[0..<h]"] by simp
  with k show ?thesis by (simp add: length_filter_eq_upt)
qed

lemma slots_all_truthy:
  assumes "length participants = n" "\<forall>x\<in>set participants. truthy x"
  shows "filter (\<lambda>i. truthy (participants ! i) \<and> truthy (participants ! (n - 1 - i))) [0..<n div 2]
           = [0..<n div 2]"
proof -
  have "\<forall>i\<in>set [0..<n div 2]. truthy (participants ! i) \<and> truthy (participants ! (n - 1 - i))"
    using assms by (auto simp: nth_mem)
  then show ?thesis by (simp only: filter_True)
qed

lemma slots_one_falsy:
  assumes len: "length participants = n" and ev: "even n"
    and one: "length (filter (\<lambda>x. \<not> truthy x) participants) = 1"
  shows "length (filter (\<lambda>i. truthy (participants ! i) \<and> truthy (participants ! (n - 1 - i)))
           [0..<n div 2]) = n div 2 - 1"
proof -
  from one obtain x where "filter (\<lambda>x. \<not> truthy x) participants = [x]"
    by (cases "filter (\<lambda>x. \<not> truthy x) participants") auto
  then obtain us vs where ps: "participants = us @ x # vs"
    and us: "\<forall>u\<in>set us. truthy u" and x: "\<not> truthy x" and vs: "filter (\<lambda>x. \<not> truthy x) vs = []"
    by (auto simp: filter_eq_Cons_iff)
  from vs have vs': "\<forall>v\<in>set vs. truthy v" by (simp add: filter_empty_conv)
  define j where "j = length us"
  have jn: "j < n" using len ps j_def by simp
  have at: "\<And>k. k < n \<Longrightarrow> truthy (participants ! k) \<longleftrightarrow> k \<noteq> j"
  proof -
    fix k assume k: "k < n"
    show "truthy (participants ! k) \<longleftrightarrow> k \<noteq> j"
    proof (cases "k < j")
      case True
      then have "participants ! k = us ! k" using ps j_def by (simp add: nth_append)
      with True us j_def show ?thesis by auto
    next
      case False
      show ?thesis
      proof (cases "k = j")
        case True
        then show ?thesis using ps j_def x by simp
      next
        case False
        with \<open>\<not> k < j\<close> have gt: "j < k" by simp
        then have "participants ! k = vs ! (k - j - 1)"
          using ps j_def by (simp add: nth_append nth_Cons')
        moreover have "k - j - 1 < length vs" using k gt len ps j_def by simp
        ultimately show ?thesis using vs' False by (auto simp: nth_mem)
      qed
    qed
  qed
  define h where "h = n div 2"
  have n2: "n = 2 * h" using ev h_def by auto
  define i0 where "i0 = (if j < h then j else n - 1 - j)"
  have i0: "i0 < h" using jn n2 i0_def by auto
  have "\<forall>i\<in>set [0..<h]. (truthy (participants ! i) \<and> truthy (participants ! (n - 1 - i))) = (i \<noteq> i0)"
  proof
    fix i assume "i \<in> set [0..<h]"
    then have ih: "i < h" by simp
    then have "i < n" "n - 1 - i < n" using n2 by auto
    then have "(truthy (participants ! i) \<and> truthy (participants ! (n - 1 - i))) = (i \<noteq> j \<and> n - 1 - i \<noteq> j)"
      by (simp add: at)
    also have "\<dots> = (i \<noteq> i0)" using ih jn n2 i0_def by auto
    finally show "(truthy (participants ! i) \<and> truthy (participants ! (n - 1 - i))) = (i \<noteq> i0)" .
  qed
  then have "filter (\<lambda>i. truthy (participants ! i) \<and> truthy (participants ! (n - 1 - i))) [0..<h]
      = filter (\<lambda>i. i \<noteq> i0) [0..<h]"
    by (intro filter_cong) auto
  then show ?thesis using length_filter_neq_upt[OF i0] by (simp add: h_def)
qed

lemma generateSchedule_closed:
  "generateSchedule teams =
     map (\<lambda>k. round_matches (length (padded teams)) k ((rotate_participants ^^ k) (padded teams)))
       [0..<length (padded teams) - 1]"
  unfolding generateSchedule_def Let_def padded_def
  by (simp add: rounds_from_closed)

lemma padded_length: "length (padded teams) = length teams + length teams mod 2"
  by (simp add: padded_def)

lemma padded_even: "even (length (padded teams))"
  by (simp add: padded_def) presburger

lemma padded_falsy:
  "\<forall>t\<in>set teams. t \<noteq> [] \<Longrightarrow>
     length (filter (\<lambda>x. \<not> truthy x) (padded teams)) = length teams mod 2"
  by (simp add: padded_def truthy_def filter_map comp_def)

lemma length_concat_const:
  "(\<And>k. k < N \<Longrightarrow> length (f k) = c) \<Longrightarrow> length (concat (map f [0..<N])) = N * c"
  by (induction N) (simp_all add: algebra_simps)

lemma rotated_falsy:
  assumes "participants \<noteq> []"
  shows "length (filter P ((rotate_participants ^^ k) participants)) = length (filter P participants)"
proof -
  have "length (filter P xs) = size (filter_mset P (mset xs))" for xs :: "string option list"
    by (metis mset_filter size_mset)
  then show ?thesis by (simp add: rotate_pow_mset[OF assms])
qed

lemma round_length:
  assumes ne: "\<forall>t\<in>set teams. t \<noteq> []" and t: "teams \<noteq> []"
  shows "length (round_matches (length (padded teams)) r ((rotate_participants ^^ k) (padded teams)))
           = length teams div 2"
proof -
  let ?n = "length (padded teams)"
  let ?ps = "(rotate_participants ^^ k) (padded teams)"
  have pne: "padded teams \<noteq> []" using t by (simp add: padded_def)
  have len: "length ?ps = ?n" by (rule rotate_pow_length[OF pne])
  have cnt: "length (filter (\<lambda>x. \<not> truthy x) ?ps) = length teams mod 2"
    using rotated_falsy[OF pne] padded_falsy[OF ne] by simp
  show ?thesis
  proof (cases "even (length teams)")
    case True
    with cnt have "filter (\<lambda>x. \<not> truthy x) ?ps = []" by simp
    then have "\<forall>x\<in>set ?ps. truthy x" by (simp add: filter_empty_conv)
    from slots_all_truthy[OF len this] True show ?thesis
      by (simp add: round_matches_length padded_length)
  next
    case False
    with cnt have "length (filter (\<lambda>x. \<not> truthy x) ?ps) = 1" by (simp add: odd_iff_mod_2_eq_one)
    from slots_one_falsy[OF len padded_even this] False show ?thesis
      by (simp add: round_matches_length padded_length odd_iff_mod_2_eq_one)
  qed
qed

text \<open>
  Claim C3. For a list of at least two non-empty team names (the request handler passes only
  trimmed, non-empty names), \<^verbatim>\<open>generateSchedule\<close> returns \<open>n - 1\<close> rounds, where \<open>n\<close> is the
  number of teams counted with the bye that is added when the number is odd; the rounds
  hold \<open>m * (m - 1) / 2\<close> fixtures in total for \<open>m\<close> teams, whether \<open>m\<close> is even or odd; and
  no fixture has the bye (\<^verbatim>\<open>null\<close>) as its home or away side.
\<close>

theorem generateSchedule_counts:
  assumes "2 \<le> length teams" and "\<forall>t\<in>set teams. t \<noteq> []"
  shows "length (generateSchedule teams) + 1 = length teams + length teams mod 2
       \<and> length (concat (generateSchedule teams)) = length teams * (length teams - 1) div 2
       \<and> (\<forall>f\<in>set (concat (generateSchedule teams)). f_home f \<noteq> None \<and> f_away f \<noteq> None)"
proof (intro conjI)
  let ?m = "length teams"
  have t: "teams \<noteq> []" using assms(1) by auto
  show "length (generateSchedule teams) + 1 = ?m + ?m mod 2"
    using assms(1) by (simp add: generateSchedule_closed padded_length)
  have "length (concat (generateSchedule teams)) = (length (padded teams) - 1) * (?m div 2)"
    unfolding generateSchedule_closed
    by (rule length_concat_const) (rule round_length[OF assms(2) t])
  also have "\<dots> = ?m * (?m - 1) div 2"
  proof (cases "even ?m")
    case True
    then obtain k where "?m = 2 * k" by auto
    then show ?thesis by (simp add: padded_length)
  next
    case False
    then obtain k where "?m = 2 * k + 1" by (auto elim: oddE)
    then show ?thesis by (simp add: padded_length)
  qed
  finally show "length (concat (generateSchedule teams)) = ?m * (?m - 1) div 2" .
  show "\<forall>f\<in>set (concat (generateSchedule teams)). f_home f \<noteq> None \<and> f_away f \<noteq> None"
  proof
    fix f assume "f \<in> set (concat (generateSchedule teams))"
    then obtain k where "f \<in> set (round_matches (length (padded teams)) k
        ((rotate_participants ^^ k) (padded teams)))"
      by (auto simp: generateSchedule_closed)
    from round_matches_truthy[OF this] show "f_home f \<noteq> None \<and> f_away f \<noteq> None"
      by (auto simp: truthy_def split: option.splits)
  qed
qed

text \<open>The statement at three teams (four participants with the bye, three rounds, three
  fixtures) and at four teams (three rounds, six fixtures).\<close>

theorem generateSchedule_counts_witness:
  "length (generateSchedule [''A'', ''B'', ''C'']) + 1 = 4
   \<and> length (concat (generateSchedule [''A'', ''B'', ''C''])) = 3
   \<and> length (generateSchedule [''A'', ''B'', ''C'', ''D'']) + 1 = 4
   \<and> length (concat (generateSchedule [''A'', ''B'', ''C'', ''D''])) = 6"
  using generateSchedule_counts[of "[''A'', ''B'', ''C'']"]
    generateSchedule_counts[of "[''A'', ''B'', ''C'', ''D'']"]
  by simp

lemma distinct_concat_upt:
  assumes "\<And>k. k < N \<Longrightarrow> distinct (g k)"
    and "\<And>k k'. k < N \<Longrightarrow> k' < N \<Longrightarrow> k \<noteq> k' \<Longrightarrow> set (g k) \<inter> set (g k') = {}"
  shows "distinct (concat (map g [0..<N]))"
  using assms
proof (induction N)
  case 0
  show ?case by simp
next
  case (Suc N)
  have "distinct (concat (map g [0..<N]))"
    by (rule Suc.IH) (use Suc.prems in auto)
  moreover have "distinct (g N)" using Suc.prems(1) by simp
  moreover have "set (concat (map g [0..<N])) \<inter> set (g N) = {}"
  proof -
    have "set (g k) \<inter> set (g N) = {}" if "k < N" for k
      using Suc.prems(2)[of k N] that by simp
    then show ?thesis by (auto simp: disjoint_iff)
  qed
  ultimately show ?case by simp
qed

lemma round_ids_distinct: "distinct (map f_id (round_matches n r participants))"
  unfolding round_matches_ids
  by (rule distinct_map[THEN iffD2]) (auto simp: inj_on_def dest: fixture_id_inj)

lemma round_ids_round:
  "x \<in> set (map f_id (round_matches n r participants)) \<Longrightarrow> \<exists>i. x = fixture_id r i"
  unfolding round_matches_ids by auto

text \<open>
  Claim C4, as the code has it. The id of every fixture of round \<open>r\<close> is \<^verbatim>\<open>r{r}-m{i}\<close> where
  \<open>i\<close> is the index of the pairing slot of the inner loop, below half the number of
  participants; within a round the slot indices increase strictly; when all names are
  non-empty every round has \<open>m div 2\<close> fixtures for \<open>m\<close> teams, so that for an even number of
  teams the indices of each round are \<open>0, 1, ...\<close> without a gap, while for an odd number one
  slot per round, the one paired with the bye, is left out; and no two fixtures of the
  schedule have the same id.
\<close>

theorem generateSchedule_ids:
  "(\<forall>r<length (generateSchedule teams). \<exists>slots.
       map f_id (generateSchedule teams ! r) = map (fixture_id r) slots
       \<and> sorted_wrt (<) slots
       \<and> set slots \<subseteq> {0..<(length teams + length teams mod 2) div 2}
       \<and> ((\<forall>t\<in>set teams. t \<noteq> []) \<longrightarrow> length slots = length teams div 2))
   \<and> ((\<forall>t\<in>set teams. t \<noteq> []) \<and> even (length teams) \<longrightarrow> ids_contiguous (generateSchedule teams))
   \<and> distinct (map f_id (concat (generateSchedule teams)))"
proof (intro conjI allI impI)
  let ?n = "length (padded teams)"
  let ?ps = "\<lambda>k. (rotate_participants ^^ k) (padded teams)"
  let ?sel = "\<lambda>k. filter (\<lambda>i. truthy (?ps k ! i) \<and> truthy (?ps k ! (?n - 1 - i))) [0..<?n div 2]"
  have nth: "generateSchedule teams ! r = round_matches ?n r (?ps r)"
    if "r < length (generateSchedule teams)" for r
    using that by (simp add: generateSchedule_closed)
  {
    fix r assume r: "r < length (generateSchedule teams)"
    then have t: "teams \<noteq> []" by (auto simp: generateSchedule_closed padded_def)
    have "map f_id (generateSchedule teams ! r) = map (fixture_id r) (?sel r)"
      by (simp add: nth[OF r] round_matches_ids)
    moreover have "sorted_wrt (<) (?sel r)" by (simp add: sorted_wrt_filter)
    moreover have "set (?sel r) \<subseteq> {0..<(length teams + length teams mod 2) div 2}"
      by (auto simp: padded_length)
    moreover have "(\<forall>t\<in>set teams. t \<noteq> []) \<longrightarrow> length (?sel r) = length teams div 2"
      using round_length[OF _ t, of r r] by (simp add: round_matches_length)
    ultimately show "\<exists>slots. map f_id (generateSchedule teams ! r) = map (fixture_id r) slots
       \<and> sorted_wrt (<) slots
       \<and> set slots \<subseteq> {0..<(length teams + length teams mod 2) div 2}
       \<and> ((\<forall>t\<in>set teams. t \<noteq> []) \<longrightarrow> length slots = length teams div 2)"
      by blast
  }
  {
    assume a: "(\<forall>t\<in>set teams. t \<noteq> []) \<and> even (length teams)"
    have n: "?n = length teams" using a by (simp add: padded_length)
    have "map f_id (round_matches ?n k (?ps k)) = map (fixture_id k) [0..<length teams div 2]"
      if "k < ?n - 1" for k
    proof -
      have pne: "padded teams \<noteq> []" using that by auto
      have "length (filter (\<lambda>x. \<not> truthy x) (?ps k)) = 0"
        using rotated_falsy[OF pne] padded_falsy a by simp
      then have "\<forall>x\<in>set (?ps k). truthy x" by (simp add: filter_empty_conv)
      from slots_all_truthy[OF rotate_pow_length[OF pne] this] show ?thesis
        by (simp add: round_matches_ids n)
    qed
    moreover have "length (round_matches ?n k (?ps k)) = length teams div 2" if "k < ?n - 1" for k
    proof -
      have "teams \<noteq> []" using that by (auto simp: padded_def)
      from round_length[OF _ this] a show ?thesis by simp
    qed
    ultimately show "ids_contiguous (generateSchedule teams)"
      unfolding ids_contiguous_def generateSchedule_closed by (simp add: comp_def)
  }
  have "map f_id (concat (generateSchedule teams)) =
      concat (map (\<lambda>k. map f_id (round_matches ?n k (?ps k))) [0..<?n - 1])"
    by (simp add: generateSchedule_closed map_concat comp_def)
  moreover have "distinct (concat (map (\<lambda>k. map f_id (round_matches ?n k (?ps k))) [0..<?n - 1]))"
  proof (rule distinct_concat_upt)
    fix k show "distinct (map f_id (round_matches ?n k (?ps k)))" by (rule round_ids_distinct)
  next
    fix k k' :: nat assume "k \<noteq> k'"
    then show "set (map f_id (round_matches ?n k (?ps k)))
        \<inter> set (map f_id (round_matches ?n k' (?ps k'))) = {}"
      using round_ids_round fixture_id_inj by (metis disjoint_iff)
  qed
  ultimately show "distinct (map f_id (concat (generateSchedule teams)))" by simp
qed

text \<open>The statement at four teams (contiguous ids) and at three teams (unique ids).\<close>

theorem generateSchedule_ids_witness:
  "ids_contiguous (generateSchedule [''A'', ''B'', ''C'', ''D''])
   \<and> distinct (map f_id (concat (generateSchedule [''A'', ''B'', ''C''])))"
  using generateSchedule_ids[of "[''A'', ''B'', ''C'', ''D'']"] generateSchedule_ids[of "[''A'', ''B'', ''C'']"]
  by simp

text \<open>Claim C4 as stated fails for three teams: the bye sits in slot \<open>0\<close> of round \<open>0\<close>, so the
  only fixture of that round has match index \<open>1\<close>.\<close>

theorem generateSchedule_ids_gap:
  "map (map f_id) (generateSchedule [''A'', ''B'', ''C'']) = [[''r0-m1''], [''r1-m0''], [''r2-m0'']]
   \<and> \<not> ids_contiguous (generateSchedule [''A'', ''B'', ''C''])"
  by code_simp

section \<open>Proofs: standings\<close>

lemma lookup_map_entry:
  "map_of (AList.map_entry k f xs) k' = (if k' = k then map_option f (map_of xs k) else map_of xs k')"
  by (simp add: map_of_map_entry map_option_case)

lemma lookup_ensureTeam:
  "map_of (ensureTeam k sb) k' =
     (if k' = k then Some (case map_of sb k of None \<Rightarrow> zero_record None | Some v \<Rightarrow> v)
      else map_of sb k')"
  by (simp add: ensureTeam_def update_conv' split: option.splits)



lemma keys_ensureTeam: "fst ` set (ensureTeam k sb) = insert k (fst ` set sb)"
  by (auto simp: ensureTeam_def dom_update split: option.splits)
     (force dest: map_of_SomeD)

lemma distinct_ensureTeam: "distinct (map fst sb) \<Longrightarrow> distinct (map fst (ensureTeam k sb))"
  by (simp add: ensureTeam_def distinct_update split: option.splits)

lemma keys_applyMatchResult:
  "fst ` set (applyMatchResult sb home away hs as) = insert home (insert away (fst ` set sb))"
  by (auto simp: applyMatchResult_def Let_def dom_map_entry keys_ensureTeam)

lemma distinct_applyMatchResult:
  "distinct (map fst sb) \<Longrightarrow> distinct (map fst (applyMatchResult sb home away hs as))"
  by (simp add: applyMatchResult_def Let_def distinct_map_entry distinct_ensureTeam)

lemma lookup_fold_update:
  "map_of (fold (\<lambda>team sb. AList.update team (Z team) sb) teams acc) t =
     (if t \<in> set teams then Some (Z t) else map_of acc t)"
  by (induction teams arbitrary: acc) (auto simp: update_conv')

lemma distinct_fold_update:
  "distinct (map fst acc) \<Longrightarrow> distinct (map fst (fold (\<lambda>team sb. AList.update team (Z team) sb) teams acc))"
  by (induction teams arbitrary: acc) (auto simp: distinct_update)

lemma keys_fold_update:
  "fst ` set (fold (\<lambda>team sb. AList.update team (Z team) sb) teams acc) = set teams \<union> fst ` set acc"
  by (induction teams arbitrary: acc) (auto simp: dom_update)

lemma lookup_createInitialScoreboard:
  "map_of (createInitialScoreboard teams logos) t =
     (if t \<in> set teams then Some (zero_record (or_null (map_of logos t))) else None)"
  unfolding createInitialScoreboard_def by (simp add: lookup_fold_update)

lemma distinct_createInitialScoreboard: "distinct (map fst (createInitialScoreboard teams logos))"
  unfolding createInitialScoreboard_def by (rule distinct_fold_update) simp

lemma keys_createInitialScoreboard: "fst ` set (createInitialScoreboard teams logos) = set teams"
  unfolding createInitialScoreboard_def by (simp add: keys_fold_update)


lemma apply_all_distinct: "distinct (map fst sb) \<Longrightarrow> distinct (map fst (apply_all rs sb))"
  unfolding apply_all_def by (induction rs arbitrary: sb) (auto simp: distinct_applyMatchResult)

lemma recompute_alt:
  "recompute old rs =
     apply_all rs (createInitialScoreboard (collect_teams (map fst old) rs)
       (collect_logos old (map fst old)))"
  by (simp add: recompute_def Let_def)

lemma recompute_distinct: "distinct (map fst (recompute old rs))"
  unfolding recompute_alt by (rule apply_all_distinct) (rule distinct_createInitialScoreboard)


lemma updateMatchResult_InrD:
  assumes "updateMatchResult loaded p = Inr d'"
  obtains d hs as where "loaded = Some d"
    and "truthy (p_home p)" "truthy (p_away p)" "p_home p \<noteq> p_away p"
    and "parseInt (p_homeScore p) = Some hs" "parseInt (p_awayScore p) = Some as" "0 \<le> hs" "0 \<le> as"
    and "d' = d\<lparr>scoreboard := Some (recompute (case scoreboard d of Some sb \<Rightarrow> sb | None \<Rightarrow> [])
          ((case results d of Some rs \<Rightarrow> remove_first (\<lambda>r. r_id r = match_id p) rs | None \<Rightarrow> [])
            @ [\<lparr>r_id = match_id p, r_home = the (p_home p), r_away = the (p_away p),
                 r_homeScore = hs, r_awayScore = as\<rparr>])),
         results := Some ((case results d of Some rs \<Rightarrow> remove_first (\<lambda>r. r_id r = match_id p) rs | None \<Rightarrow> [])
            @ [\<lparr>r_id = match_id p, r_home = the (p_home p), r_away = the (p_away p),
                 r_homeScore = hs, r_awayScore = as\<rparr>])\<rparr>"
  using assms
  by (auto simp: updateMatchResult_def Let_def falsy_def split: option.splits if_splits)


section \<open>Proofs: result ledger\<close>

lemma length_remove_first: "\<exists>x\<in>set xs. P x \<Longrightarrow> length (remove_first P xs) + 1 = length xs"
  by (induction xs) auto

lemma remove_first_filter:
  "distinct (map f xs) \<Longrightarrow> remove_first (\<lambda>x. f x = v) xs = filter (\<lambda>x. f x \<noteq> v) xs"
proof (induction xs)
  case Nil
  show ?case by simp
next
  case (Cons x xs)
  show ?case
  proof (cases "f x = v")
    case True
    with Cons.prems have "\<forall>y\<in>set xs. f y \<noteq> v" by (auto simp: image_iff)
    then have "filter (\<lambda>x. f x \<noteq> v) xs = xs" by (simp only: filter_True)
    with True show ?thesis by simp
  next
    case False
    with Cons show ?thesis by simp
  qed
qed

lemma set_remove_first: "set (remove_first P xs) \<subseteq> set xs"
  by (induction xs) auto

lemma distinct_remove_first: "distinct (map f xs) \<Longrightarrow> distinct (map f (remove_first P xs))"
proof (induction xs)
  case Nil
  show ?case by simp
next
  case (Cons x xs)
  then show ?case using set_remove_first[of P xs] by auto
qed

lemma remove_first_rescored:
  assumes "distinct (map r_id rs)"
  shows "remove_first (\<lambda>r. r_id r = v)
           (map (\<lambda>r. if r_id r = v then r\<lparr>r_homeScore := x, r_awayScore := y\<rparr> else r) rs)
         = remove_first (\<lambda>r. r_id r = v) rs"
  using assms
proof (induction rs)
  case Nil
  show ?case by simp
next
  case (Cons r rs)
  show ?case
  proof (cases "r_id r = v")
    case True
    with Cons.prems have "\<forall>q\<in>set rs. r_id q \<noteq> v" by (auto simp: image_iff)
    then have "map (\<lambda>r. if r_id r = v then r\<lparr>r_homeScore := x, r_awayScore := y\<rparr> else r) rs = rs"
      by (induction rs) auto
    with True show ?thesis by simp
  next
    case False
    with Cons show ?thesis by simp
  qed
qed

lemma lookup_apply_other:
  "t \<noteq> home \<Longrightarrow> t \<noteq> away \<Longrightarrow> map_of (applyMatchResult sb home away hs as) t = map_of sb t"
  by (simp add: applyMatchResult_def Let_def lookup_map_entry lookup_ensureTeam)

lemma lookup_apply_all_other:
  "\<forall>r\<in>set rs. r_home r \<noteq> t \<and> r_away r \<noteq> t \<Longrightarrow> map_of (apply_all rs sb) t = map_of sb t"
  unfolding apply_all_def
  by (induction rs arbitrary: sb) (auto simp: lookup_apply_other)

lemma apply_all_snoc:
  "apply_all (rs @ [r]) sb =
     applyMatchResult (apply_all rs sb) (r_home r) (r_away r) (r_homeScore r) (r_awayScore r)"
  by (simp add: apply_all_def)

lemma lookup_apply_fresh_home:
  assumes "map_of sb home = Some (zero_record None)" "home \<noteq> away"
  shows "map_of (applyMatchResult sb home away hs as) home =
     Some \<lparr>played = 1, wins = (if hs > as then 1 else 0), draws = (if hs = as then 1 else 0),
           losses = (if hs < as then 1 else 0), goalsFor = hs, goalsAgainst = as,
           goalDifference = hs - as,
           points = (if hs > as then 3 else if hs = as then 1 else 0), logo = None\<rparr>"
  using assms
  by (simp add: applyMatchResult_def Let_def lookup_map_entry lookup_ensureTeam zero_record_def)

lemma lookup_apply_fresh_away:
  assumes "map_of sb away = Some (zero_record None)" "home \<noteq> away"
  shows "map_of (applyMatchResult sb home away hs as) away =
     Some \<lparr>played = 1, wins = (if as > hs then 1 else 0), draws = (if as = hs then 1 else 0),
           losses = (if as < hs then 1 else 0), goalsFor = as, goalsAgainst = hs,
           goalDifference = as - hs,
           points = (if as > hs then 3 else if as = hs then 1 else 0), logo = None\<rparr>"
  using assms
  by (simp add: applyMatchResult_def Let_def lookup_map_entry lookup_ensureTeam zero_record_def)

lemma set_fold_set_add: "set (fold set_add xs acc) = set xs \<union> set acc"
  by (induction xs arbitrary: acc) (auto simp: set_add_def)

lemma set_collect_teams:
  "set (collect_teams existingTeams rs) = set existingTeams \<union> r_home ` set rs \<union> r_away ` set rs"
proof -
  have "set (fold (\<lambda>r teamSet. set_add (r_away r) (set_add (r_home r) teamSet)) rs acc)
      = set acc \<union> r_home ` set rs \<union> r_away ` set rs" for acc
    by (induction rs arbitrary: acc) (auto simp: set_add_def)
  then show ?thesis by (simp add: collect_teams_def set_fold_set_add)
qed

lemma lookup_collect_logos: "t \<notin> set existingTeams \<Longrightarrow> map_of (collect_logos sb existingTeams) t = None"
proof -
  have "t \<notin> set ts \<Longrightarrow> map_of (fold (\<lambda>t logos.
             case map_of sb t of
               None \<Rightarrow> logos
             | Some rec \<Rightarrow> (case logo rec of
                              None \<Rightarrow> logos
                            | Some l \<Rightarrow> if l \<noteq> [] then AList.update t l logos else logos))
          ts acc) t = map_of acc t" for ts acc
    by (induction ts arbitrary: acc) (auto simp: update_conv' split: option.splits)
  from this[of existingTeams "[]"] show "t \<notin> set existingTeams \<Longrightarrow> ?thesis"
    by (simp add: collect_logos_def)
qed

lemma keys_apply_all:
  "fst ` set (apply_all rs sb) = fst ` set sb \<union> r_home ` set rs \<union> r_away ` set rs"
  unfolding apply_all_def
  by (induction rs arbitrary: sb) (auto simp: keys_applyMatchResult)

lemma keys_recompute:
  "fst ` set (recompute old rs) = fst ` set old \<union> r_home ` set rs \<union> r_away ` set rs"
  by (auto simp: recompute_alt keys_apply_all keys_createInitialScoreboard set_collect_teams)

lemma lookup_recompute_fresh:
  assumes "t \<notin> fst ` set old" "\<forall>r\<in>set rs. r_home r \<noteq> t \<and> r_away r \<noteq> t"
    and "t = r_home r \<or> t = r_away r"
  shows "map_of (apply_all rs (createInitialScoreboard (collect_teams (map fst old) (rs @ [r]))
       (collect_logos old (map fst old)))) t = Some (zero_record None)"
proof -
  have "map_of (collect_logos old (map fst old)) t = None"
    using assms(1) by (intro lookup_collect_logos) simp
  moreover have "t \<in> set (collect_teams (map fst old) (rs @ [r]))"
    using assms(3) by (auto simp: set_collect_teams)
  ultimately show ?thesis
    using assms(2)
    by (simp add: lookup_apply_all_other lookup_createInitialScoreboard or_null_def truthy_def)
qed

lemma generatePlayoff_incomplete_iff:
  assumes "knockout d = None" "results d = Some rs"
  shows "generatePlayoff lc (Some sch) (Some d) = Inl GroupStageIncomplete
           \<longleftrightarrow> length rs < totalMatches sch"
  using assms
  by (auto simp: generatePlayoff_def Let_def split: option.splits)

text \<open>
  Claim C10. \<^verbatim>\<open>updateMatchResult\<close> reads neither the schedule nor the team list: for every
  stored scoreboard and ledger, a submission with two different non-empty team names (other
  than \<^verbatim>\<open>__proto__\<close>, which is no property key) and scores that parse to non-negative
  integers succeeds, whatever its id and teams are. Both teams have a record afterwards; a
  team that had no record and no result before has the record of one match played, counted
  from zero with no logo. The result is appended to the ledger, and it is the length of this
  ledger that \<^verbatim>\<open>generatePlayoff\<close> compares with the number of fixtures of any schedule.
\<close>

theorem updateMatchResult_unvalidated:
  assumes names: "p_home p = Some h" "p_away p = Some a" "h \<noteq> []" "a \<noteq> []" "h \<noteq> a"
    and proto: "h \<noteq> ''__proto__''" "a \<noteq> ''__proto__''"
    and scores: "parseInt (p_homeScore p) = Some hs" "parseInt (p_awayScore p) = Some as"
      "0 \<le> hs" "0 \<le> as"
    and stored: "scoreboard d = Some sb" "results d = Some rs"
  shows "\<exists>d' sb' rs'. updateMatchResult (Some d) p = Inr d'
      \<and> results d' = Some rs' \<and> scoreboard d' = Some sb'
      \<and> rs' = remove_first (\<lambda>r. r_id r = match_id p) rs
               @ [\<lparr>r_id = match_id p, r_home = h, r_away = a, r_homeScore = hs, r_awayScore = as\<rparr>]
      \<and> h \<in> fst ` set sb' \<and> a \<in> fst ` set sb'
      \<and> (h \<notin> fst ` set sb \<and> (\<forall>r\<in>set rs. r_home r \<noteq> h \<and> r_away r \<noteq> h) \<longrightarrow>
           map_of sb' h =
             Some \<lparr>played = 1, wins = (if hs > as then 1 else 0), draws = (if hs = as then 1 else 0),
                   losses = (if hs < as then 1 else 0), goalsFor = hs, goalsAgainst = as,
                   goalDifference = hs - as,
                   points = (if hs > as then 3 else if hs = as then 1 else 0), logo = None\<rparr>)
      \<and> (a \<notin> fst ` set sb \<and> (\<forall>r\<in>set rs. r_home r \<noteq> a \<and> r_away r \<noteq> a) \<longrightarrow>
           map_of sb' a =
             Some \<lparr>played = 1, wins = (if as > hs then 1 else 0), draws = (if as = hs then 1 else 0),
                   losses = (if as < hs then 1 else 0), goalsFor = as, goalsAgainst = hs,
                   goalDifference = as - hs,
                   points = (if as > hs then 3 else if as = hs then 1 else 0), logo = None\<rparr>)
      \<and> (knockout d = None \<longrightarrow>
           (\<forall>lc schedule.
              generatePlayoff lc (Some schedule) (Some d') = Inl GroupStageIncomplete
                \<longleftrightarrow> length (remove_first (\<lambda>r. r_id r = match_id p) rs) + 1 < totalMatches schedule))"
proof -
  let ?rs0 = "remove_first (\<lambda>r. r_id r = match_id p) rs"
  let ?new = "\<lparr>r_id = match_id p, r_home = h, r_away = a, r_homeScore = hs, r_awayScore = as\<rparr>"
  let ?rs' = "?rs0 @ [?new]"
  let ?sb' = "recompute sb ?rs'"
  let ?d' = "d\<lparr>scoreboard := Some ?sb', results := Some ?rs'\<rparr>"
  let ?init = "createInitialScoreboard (collect_teams (map fst sb) ?rs') (collect_logos sb (map fst sb))"
  have run: "updateMatchResult (Some d) p = Inr ?d'"
    using names scores stored by (simp add: updateMatchResult_def Let_def truthy_def falsy_def)
  have sub: "set ?rs0 \<subseteq> set rs" by (rule set_remove_first)
  have sb': "?sb' = applyMatchResult (apply_all ?rs0 ?init) h a hs as"
    by (simp add: recompute_alt apply_all_snoc)
  have keys: "h \<in> fst ` set ?sb'" "a \<in> fst ` set ?sb'"
    by (simp_all add: keys_recompute)
  have fresh_h: "map_of ?sb' h =
             Some \<lparr>played = 1, wins = (if hs > as then 1 else 0), draws = (if hs = as then 1 else 0),
                   losses = (if hs < as then 1 else 0), goalsFor = hs, goalsAgainst = as,
                   goalDifference = hs - as,
                   points = (if hs > as then 3 else if hs = as then 1 else 0), logo = None\<rparr>"
    if "h \<notin> fst ` set sb \<and> (\<forall>r\<in>set rs. r_home r \<noteq> h \<and> r_away r \<noteq> h)"
  proof -
    from that sub have "\<forall>r\<in>set ?rs0. r_home r \<noteq> h \<and> r_away r \<noteq> h" by blast
    with that have "map_of (apply_all ?rs0 ?init) h = Some (zero_record None)"
      by (intro lookup_recompute_fresh) simp_all
    from lookup_apply_fresh_home[OF this names(5)] show ?thesis unfolding sb' .
  qed
  have fresh_a: "map_of ?sb' a =
             Some \<lparr>played = 1, wins = (if as > hs then 1 else 0), draws = (if as = hs then 1 else 0),
                   losses = (if as < hs then 1 else 0), goalsFor = as, goalsAgainst = hs,
                   goalDifference = as - hs,
                   points = (if as > hs then 3 else if as = hs then 1 else 0), logo = None\<rparr>"
    if "a \<notin> fst ` set sb \<and> (\<forall>r\<in>set rs. r_home r \<noteq> a \<and> r_away r \<noteq> a)"
  proof -
    from that sub have "\<forall>r\<in>set ?rs0. r_home r \<noteq> a \<and> r_away r \<noteq> a" by blast
    with that have "map_of (apply_all ?rs0 ?init) a = Some (zero_record None)"
      by (intro lookup_recompute_fresh) simp_all
    from lookup_apply_fresh_away[OF this names(5)] show ?thesis unfolding sb' .
  qed
  have play: "generatePlayoff lc (Some schedule) (Some ?d') = Inl GroupStageIncomplete
                \<longleftrightarrow> length ?rs0 + 1 < totalMatches schedule"
    if "knockout d = None" for lc schedule
    using generatePlayoff_incomplete_iff[of ?d' ?rs' lc schedule] that by simp
  show ?thesis
    apply (rule exI[of _ ?d'], rule exI[of _ ?sb'], rule exI[of _ ?rs'])
    apply (intro conjI impI allI)
    subgoal by (rule run)
    subgoal by simp
    subgoal by simp
    subgoal by simp
    subgoal by (rule keys)
    subgoal by (rule keys)
    subgoal by (rule fresh_h)
    subgoal by (rule fresh_a)
    subgoal by (rule play)
    done
qed

text \<open>The recompute refines the tally of the specification: applying one result changes the
  record of a team by what the result adds to the team's counts and sums, so the scoreboard
  built from zero records holds the tally of the whole ledger for every team.\<close>

lemma tally_Nil: "tally [] t l = zero_record l"
  by (simp add: tally_def zero_record_def)

lemma apply_lookup_home:
  assumes "map_of sb home = Some v" "home \<noteq> away"
  shows "map_of (applyMatchResult sb home away hs as) home =
     Some (v\<lparr>played := played v + 1, goalsFor := goalsFor v + hs,
             goalsAgainst := goalsAgainst v + as,
             goalDifference := goalsFor v + hs - (goalsAgainst v + as),
             wins := wins v + (if hs > as then 1 else 0),
             draws := draws v + (if hs = as then 1 else 0),
             losses := losses v + (if hs < as then 1 else 0),
             points := points v + (if hs > as then 3 else if hs = as then 1 else 0)\<rparr>)"
proof -
  consider "hs > as" | "hs < as" | "hs = as" by linarith
  then show ?thesis
    using assms
    by cases (simp_all add: applyMatchResult_def Let_def lookup_map_entry lookup_ensureTeam)
qed

lemma apply_lookup_away:
  assumes "map_of sb away = Some v" "home \<noteq> away"
  shows "map_of (applyMatchResult sb home away hs as) away =
     Some (v\<lparr>played := played v + 1, goalsFor := goalsFor v + as,
             goalsAgainst := goalsAgainst v + hs,
             goalDifference := goalsFor v + as - (goalsAgainst v + hs),
             wins := wins v + (if as > hs then 1 else 0),
             draws := draws v + (if hs = as then 1 else 0),
             losses := losses v + (if as < hs then 1 else 0),
             points := points v + (if as > hs then 3 else if hs = as then 1 else 0)\<rparr>)"
proof -
  consider "hs > as" | "hs < as" | "hs = as" by linarith
  then show ?thesis
    using assms
    by cases (simp_all add: applyMatchResult_def Let_def lookup_map_entry lookup_ensureTeam)
qed

lemma apply_lookup_both:
  assumes "map_of sb home = Some v"
  shows "map_of (applyMatchResult sb home home hs as) home =
     Some (v\<lparr>played := played v + 2, goalsFor := goalsFor v + hs + as,
             goalsAgainst := goalsAgainst v + as + hs,
             goalDifference := goalsFor v + hs + as - (goalsAgainst v + as + hs),
             wins := wins v + (if hs = as then 0 else 1),
             draws := draws v + (if hs = as then 2 else 0),
             losses := losses v + (if hs = as then 0 else 1),
             points := points v + (if hs = as then 2 else 3)\<rparr>)"
proof -
  consider "hs > as" | "hs < as" | "hs = as" by linarith
  then show ?thesis
    using assms
    by cases (simp_all add: applyMatchResult_def Let_def lookup_map_entry lookup_ensureTeam)
qed

lemma tally_step:
  assumes "map_of sb t = Some (tally rs t l)"
  shows "map_of (applyMatchResult sb (r_home r) (r_away r) (r_homeScore r) (r_awayScore r)) t
           = Some (tally (rs @ [r]) t l)"
proof -
  consider (neither) "t \<noteq> r_home r" "t \<noteq> r_away r"
    | (home) "t = r_home r" "r_home r \<noteq> r_away r"
    | (away) "t = r_away r" "r_home r \<noteq> r_away r"
    | (both) "t = r_home r" "r_home r = r_away r"
    by auto
  then show ?thesis
  proof cases
    case neither
    then have "tally (rs @ [r]) t l = tally rs t l" by (simp add: tally_def Let_def)
    with neither assms show ?thesis by (simp add: lookup_apply_other)
  next
    case home
    from assms home have m: "map_of sb (r_home r) = Some (tally rs (r_home r) l)" by simp
    consider "r_homeScore r > r_awayScore r" | "r_homeScore r < r_awayScore r"
      | "r_homeScore r = r_awayScore r" by linarith
    then show ?thesis
      unfolding home(1) apply_lookup_home[OF m home(2)]
      using home(2) by cases (simp_all add: tally_def Let_def)
  next
    case away
    from assms away have m: "map_of sb (r_away r) = Some (tally rs (r_away r) l)" by simp
    consider "r_homeScore r > r_awayScore r" | "r_homeScore r < r_awayScore r"
      | "r_homeScore r = r_awayScore r" by linarith
    then show ?thesis
      unfolding away(1) apply_lookup_away[OF m away(2)]
      using away(2) by cases (simp_all add: tally_def Let_def)
  next
    case both
    from assms both have m: "map_of sb (r_home r) = Some (tally rs (r_home r) l)" by simp
    consider "r_homeScore r > r_awayScore r" | "r_homeScore r < r_awayScore r"
      | "r_homeScore r = r_awayScore r" by linarith
    then show ?thesis
      unfolding both(1) both(2)[symmetric] apply_lookup_both[OF m]
      using both(2) by cases (simp_all add: tally_def Let_def)
  qed
qed

lemma tally_apply_all:
  assumes "\<forall>t\<in>K. map_of sb t = Some (tally pre t (L t))"
  shows "\<forall>t\<in>K. map_of (apply_all rs sb) t = Some (tally (pre @ rs) t (L t))"
  using assms
proof (induction rs arbitrary: sb pre)
  case Nil
  then show ?case by (simp add: apply_all_def)
next
  case (Cons r rs)
  have "\<forall>t\<in>K. map_of (applyMatchResult sb (r_home r) (r_away r) (r_homeScore r) (r_awayScore r)) t
          = Some (tally (pre @ [r]) t (L t))"
    using Cons.prems by (auto intro: tally_step)
  from Cons.IH[OF this] show ?case by (simp add: apply_all_def)
qed

lemma recompute_tally:
  assumes "(t, r) \<in> set (recompute old rs)"
  shows "r = tally rs t (logo r)"
proof -
  let ?teams = "collect_teams (map fst old) rs"
  let ?logos = "collect_logos old (map fst old)"
  have "\<forall>t\<in>set ?teams. map_of (createInitialScoreboard ?teams ?logos) t
          = Some (tally [] t (or_null (map_of ?logos t)))"
    by (simp add: lookup_createInitialScoreboard tally_Nil)
  from tally_apply_all[OF this, of rs]
  have all: "\<forall>t\<in>set ?teams. map_of (recompute old rs) t
          = Some (tally rs t (or_null (map_of ?logos t)))"
    by (simp add: recompute_alt)
  from assms have "t \<in> fst ` set (recompute old rs)" by force
  then have "t \<in> set ?teams"
    by (simp add: keys_recompute set_collect_teams)
  with all have "map_of (recompute old rs) t = Some (tally rs t (or_null (map_of ?logos t)))"
    by blast
  moreover from assms have "map_of (recompute old rs) t = Some r"
    using recompute_distinct by simp
  ultimately have "r = tally rs t (or_null (map_of ?logos t))" by simp
  then show ?thesis by (simp add: tally_def Let_def)
qed

text \<open>
  Claim C2. Let the ledger hold at most one result per id (as every ledger does that starts
  empty and is changed by \<^verbatim>\<open>updateMatchResult\<close> only), and let a submission succeed whose
  match id is already in the ledger. Then the new ledger has the same length, still holds at
  most one result per id, and consists of the old results with other ids followed by one
  result with the submitted id, teams and parsed scores, the only one with that id. The
  stored scoreboard has a record for every team of the old scoreboard and of the new ledger,
  and every record is the tally of the new ledger for its team: matches played, wins, draws,
  losses, goals and points counted over the results of the new ledger and nothing else.
  The stored data are the same whatever scores the replaced result had.
\<close>

theorem updateMatchResult_replaces:
  assumes ok: "updateMatchResult (Some d) p = Inr d'"
    and rs: "results d = Some rs"
    and ids: "distinct (map r_id rs)"
    and present: "match_id p \<in> r_id ` set rs"
  shows "\<exists>rs' sb' hs as. results d' = Some rs'
      \<and> length rs' = length rs
      \<and> distinct (map r_id rs')
      \<and> parseInt (p_homeScore p) = Some hs \<and> parseInt (p_awayScore p) = Some as
      \<and> rs' = filter (\<lambda>r. r_id r \<noteq> match_id p) rs
               @ [\<lparr>r_id = match_id p, r_home = the (p_home p), r_away = the (p_away p),
                    r_homeScore = hs, r_awayScore = as\<rparr>]
      \<and> (\<forall>r\<in>set rs'. r_id r = match_id p \<longrightarrow> r_homeScore r = hs \<and> r_awayScore r = as)
      \<and> scoreboard d' = Some (recompute (case scoreboard d of Some sb \<Rightarrow> sb | None \<Rightarrow> []) rs')
      \<and> scoreboard d' = Some sb'
      \<and> fst ` set sb' = fst ` set (case scoreboard d of Some sb \<Rightarrow> sb | None \<Rightarrow> [])
                          \<union> r_home ` set rs' \<union> r_away ` set rs'
      \<and> (\<forall>(t, r)\<in>set sb'. r = tally rs' t (logo r))
      \<and> (\<forall>x y. updateMatchResult
                  (Some (d\<lparr>results := Some (map (\<lambda>r. if r_id r = match_id p
                                                     then r\<lparr>r_homeScore := x, r_awayScore := y\<rparr>
                                                     else r) rs)\<rparr>)) p = Inr d')"
proof -
  let ?new = "\<lambda>hs as. \<lparr>r_id = match_id p, r_home = the (p_home p), r_away = the (p_away p),
                    r_homeScore = hs, r_awayScore = as\<rparr>"
  let ?old = "case scoreboard d of Some sb \<Rightarrow> sb | None \<Rightarrow> []"
  from ok rs obtain hs as where
    v: "truthy (p_home p)" "truthy (p_away p)" "p_home p \<noteq> p_away p"
      "parseInt (p_homeScore p) = Some hs" "parseInt (p_awayScore p) = Some as" "0 \<le> hs" "0 \<le> as"
    and d': "d' = d\<lparr>scoreboard := Some (recompute ?old
                (remove_first (\<lambda>r. r_id r = match_id p) rs @ [?new hs as])),
              results := Some (remove_first (\<lambda>r. r_id r = match_id p) rs @ [?new hs as])\<rparr>"
    by (auto elim!: updateMatchResult_InrD)
  let ?rs' = "remove_first (\<lambda>r. r_id r = match_id p) rs @ [?new hs as]"
  let ?sb' = "recompute ?old ?rs'"
  have f: "remove_first (\<lambda>r. r_id r = match_id p) rs = filter (\<lambda>r. r_id r \<noteq> match_id p) rs"
    by (rule remove_first_filter[OF ids])
  have 1: "results d' = Some ?rs'" using d' by simp
  have 2: "length ?rs' = length rs"
  proof -
    from present have "\<exists>x\<in>set rs. r_id x = match_id p" by auto
    from length_remove_first[OF this] show ?thesis by simp
  qed
  have 3: "distinct (map r_id ?rs')"
    unfolding f using ids by (auto simp: distinct_map_filter)
  have 4: "?rs' = filter (\<lambda>r. r_id r \<noteq> match_id p) rs @ [?new hs as]"
    using f by simp
  have 5: "\<forall>r\<in>set ?rs'. r_id r = match_id p \<longrightarrow> r_homeScore r = hs \<and> r_awayScore r = as"
    unfolding f by auto
  have 6: "scoreboard d' = Some ?sb'" using d' by simp
  have 7: "fst ` set ?sb' = fst ` set ?old \<union> r_home ` set ?rs' \<union> r_away ` set ?rs'"
    by (rule keys_recompute)
  have 8: "\<forall>(t, r)\<in>set ?sb'. r = tally ?rs' t (logo r)"
    using recompute_tally[of _ _ ?old ?rs'] by blast
  have 9: "\<forall>x y. updateMatchResult
                  (Some (d\<lparr>results := Some (map (\<lambda>r. if r_id r = match_id p
                                                     then r\<lparr>r_homeScore := x, r_awayScore := y\<rparr>
                                                     else r) rs)\<rparr>)) p = Inr d'"
  proof (intro allI)
    fix x y
    show "updateMatchResult
                  (Some (d\<lparr>results := Some (map (\<lambda>r. if r_id r = match_id p
                                                     then r\<lparr>r_homeScore := x, r_awayScore := y\<rparr>
                                                     else r) rs)\<rparr>)) p = Inr d'"
      using v d' remove_first_rescored[OF ids, where v = "match_id p" and x = x and y = y]
      by (simp add: updateMatchResult_def Let_def falsy_def)
  qed
  show ?thesis
    apply (rule exI[of _ ?rs'], rule exI[of _ ?sb'], rule exI[of _ hs], rule exI[of _ as])
    apply (intro conjI)
    subgoal by (rule 1)
    subgoal by (rule 2)
    subgoal by (rule 3)
    subgoal by (rule v(4))
    subgoal by (rule v(5))
    subgoal by (rule 4)
    subgoal by (rule 5)
    subgoal by (rule 6)
    subgoal by (rule 6)
    subgoal by (rule 7)
    subgoal by (rule 8)
    subgoal by (rule 9)
    done
qed

section \<open>Proofs: knockout bracket\<close>

lemma mset_insert_sorted: "mset (insert_sorted cmp x ys) = add_mset x (mset ys)"
  by (induction ys) auto

lemma mset_array_sort: "mset (array_sort cmp xs) = mset xs"
  unfolding array_sort_def by (induction xs) (auto simp: mset_insert_sorted)

lemma set_insert_sorted: "set (insert_sorted cmp x ys) = insert x (set ys)"
  by (induction ys) auto

lemma sorted_insert_sorted:
  assumes total: "\<And>a b. cmp a b \<le> 0 \<or> cmp b a \<le> 0"
    and trans: "\<And>a b c. cmp a b \<le> 0 \<Longrightarrow> cmp b c \<le> 0 \<Longrightarrow> cmp a c \<le> 0"
  shows "sorted_wrt (\<lambda>a b. cmp a b \<le> 0) ys \<Longrightarrow> sorted_wrt (\<lambda>a b. cmp a b \<le> 0) (insert_sorted cmp x ys)"
proof (induction ys)
  case Nil
  show ?case by simp
next
  case (Cons y ys)
  show ?case
  proof (cases "cmp x y \<le> 0")
    case True
    with Cons.prems show ?thesis by (auto intro: trans)
  next
    case False
    with total[of x y] have "cmp y x \<le> 0" by simp
    with False Cons show ?thesis by (auto simp: set_insert_sorted)
  qed
qed

lemma sorted_array_sort:
  assumes "\<And>a b. cmp a b \<le> 0 \<or> cmp b a \<le> 0"
    and "\<And>a b c. cmp a b \<le> 0 \<Longrightarrow> cmp b c \<le> 0 \<Longrightarrow> cmp a c \<le> 0"
  shows "sorted_wrt (\<lambda>a b. cmp a b \<le> 0) (array_sort cmp xs)"
  unfolding array_sort_def
  by (induction xs) (auto intro: sorted_insert_sorted[OF assms])

lemma compare_standings_le: "compare_standings lc a b \<le> 0 \<longleftrightarrow> ranks_before lc a b"
  by (auto simp: compare_standings_def ranks_before_def)

lemma ranks_before_total:
  assumes "\<forall>a b. lc a b \<le> 0 \<or> lc b a \<le> 0"
  shows "ranks_before lc a b \<or> ranks_before lc b a"
  using assms[rule_format, of "fst a" "fst b"] by (auto simp: ranks_before_def)

lemma ranks_before_trans:
  assumes "\<forall>a b c. lc a b \<le> 0 \<and> lc b c \<le> 0 \<longrightarrow> lc a c \<le> 0"
    and "ranks_before lc a b" "ranks_before lc b c"
  shows "ranks_before lc a c"
  using assms(2,3) assms(1)[rule_format, of "fst a" "fst b" "fst c"]
  unfolding ranks_before_def by auto

lemma entries_of_keys:
  "\<forall>(k, v)\<in>set xs. m k = Some v \<Longrightarrow>
     List.map_filter (\<lambda>t. map_option (Pair t) (m t)) (map fst xs) = xs"
  by (induction xs) (auto simp: List.map_filter_simps)

lemma standings_entries:
  "distinct (map fst sb) \<Longrightarrow>
     List.map_filter (\<lambda>t. map_option (Pair t) (map_of sb t)) (map fst sb) = sb"
  by (rule entries_of_keys) auto

lemma sorted_standings_props:
  assumes "\<forall>a b. lc a b \<le> 0 \<or> lc b a \<le> 0"
    and "\<forall>a b c. lc a b \<le> 0 \<and> lc b c \<le> 0 \<longrightarrow> lc a c \<le> 0"
    and "distinct (map fst sb)"
  shows "mset (sorted_standings lc sb) = mset sb"
    and "sorted_wrt (ranks_before lc) (sorted_standings lc sb)"
proof -
  show "mset (sorted_standings lc sb) = mset sb"
    by (simp add: sorted_standings_def mset_array_sort standings_entries[OF assms(3)])
  have "sorted_wrt (\<lambda>a b. compare_standings lc a b \<le> 0) (array_sort (compare_standings lc) sb)"
  proof (rule sorted_array_sort)
    fix a b show "compare_standings lc a b \<le> 0 \<or> compare_standings lc b a \<le> 0"
      unfolding compare_standings_le by (rule ranks_before_total[OF assms(1)])
  next
    fix a b c assume "compare_standings lc a b \<le> 0" "compare_standings lc b c \<le> 0"
    then show "compare_standings lc a c \<le> 0"
      unfolding compare_standings_le by (rule ranks_before_trans[OF assms(2)])
  qed
  then show "sorted_wrt (ranks_before lc) (sorted_standings lc sb)"
    by (simp add: sorted_standings_def standings_entries[OF assms(3)] compare_standings_le)
qed

text \<open>
  Claim C5. Let \<^verbatim>\<open>localeCompare\<close> be a consistent comparator (total and transitive), let no
  bracket exist yet, and let \<^verbatim>\<open>generatePlayoff\<close> succeed. Then the sorted standings are a
  rearrangement of the scoreboard entries in which every entry ranks before all later ones
  (descending points, then goal difference, then goals for, then ascending name); the
  first semi-final has the first entry at home and the fourth away, the second semi-final
  the second at home and the third away, each without scores or winner; the final has no
  home, away, scores or winner; and the bracket is what is stored.
\<close>

theorem generatePlayoff_seeding:
  assumes total: "\<forall>a b. lc a b \<le> 0 \<or> lc b a \<le> 0"
    and trans: "\<forall>a b c. lc a b \<le> 0 \<and> lc b c \<le> 0 \<longrightarrow> lc a c \<le> 0"
    and fresh: "knockout d = None"
    and sb: "scoreboard d = Some sb" "distinct (map fst sb)"
    and ok: "generatePlayoff lc (Some schedule) (Some d) = Inr (k, d')"
  shows "mset (sorted_standings lc sb) = mset sb
     \<and> sorted_wrt (ranks_before lc) (sorted_standings lc sb)
     \<and> 4 \<le> length (sorted_standings lc sb)
     \<and> semiFinals k =
         [\<lparr>k_id = ''sf1'', k_home = Some (fst (sorted_standings lc sb ! 0)),
            k_away = Some (fst (sorted_standings lc sb ! 3)),
            k_homeScore = None, k_awayScore = None, winner = None\<rparr>,
          \<lparr>k_id = ''sf2'', k_home = Some (fst (sorted_standings lc sb ! 1)),
            k_away = Some (fst (sorted_standings lc sb ! 2)),
            k_homeScore = None, k_awayScore = None, winner = None\<rparr>]
     \<and> final k = \<lparr>k_id = ''final'', k_home = None, k_away = None,
                   k_homeScore = None, k_awayScore = None, winner = None\<rparr>
     \<and> d' = d\<lparr>knockout := Some k\<rparr>"
proof -
  note props = sorted_standings_props[OF total trans sb(2)]
  from ok fresh sb(1) have len: "4 \<le> length sb"
    by (auto simp: generatePlayoff_def Let_def split: option.splits if_splits)
  have "length (sorted_standings lc sb) = length sb"
    using props(1) by (metis size_mset)
  with len have l4: "4 \<le> length (sorted_standings lc sb)" by simp
  from ok fresh sb(1) l4 have
    "semiFinals k =
         [\<lparr>k_id = ''sf1'', k_home = Some (fst (sorted_standings lc sb ! 0)),
            k_away = Some (fst (sorted_standings lc sb ! 3)),
            k_homeScore = None, k_awayScore = None, winner = None\<rparr>,
          \<lparr>k_id = ''sf2'', k_home = Some (fst (sorted_standings lc sb ! 1)),
            k_away = Some (fst (sorted_standings lc sb ! 2)),
            k_homeScore = None, k_awayScore = None, winner = None\<rparr>]
     \<and> final k = \<lparr>k_id = ''final'', k_home = None, k_away = None,
                   k_homeScore = None, k_awayScore = None, winner = None\<rparr>
     \<and> d' = d\<lparr>knockout := Some k\<rparr>"
    by (auto simp: generatePlayoff_def Let_def at_index_def new_match_def
        split: option.splits if_splits)
  with props l4 show ?thesis by simp
qed



text \<open>
  Claim C8. When the stored data hold a bracket, \<^verbatim>\<open>generatePlayoff\<close> returns that bracket and
  leaves the stored data as they are, whatever the schedule, the ledger and the scoreboard
  are.
\<close>

theorem generatePlayoff_idempotent:
  assumes "knockout d = Some k"
  shows "generatePlayoff lc (Some schedule) (Some d) = Inr (k, d)"
  using assms by (simp add: generatePlayoff_def)

lemma find_two:
  "k_id s1 = ''sf1'' \<Longrightarrow> k_id s2 = ''sf2'' \<Longrightarrow>
   List.find (\<lambda>sf. k_id sf = i) [s1, s2] =
     (if i = ''sf1'' then Some s1 else if i = ''sf2'' then Some s2 else None)"
  by auto

text \<open>
  Claim C6. Let the bracket have the two semi-finals \<^verbatim>\<open>sf1\<close> and \<^verbatim>\<open>sf2\<close> and no empty
  names (as \<^verbatim>\<open>generatePlayoff\<close> creates it and \<^verbatim>\<open>updateKnockout\<close> keeps it), and let the submission name one of them or \<^verbatim>\<open>final\<close> with scores that parse to
  non-negative integers. Then \<^verbatim>\<open>updateKnockout\<close> succeeds and stores the new bracket; the
  match has the submitted scores, and its winner is its home side when the home score is
  higher, its away side when the away score is higher, and its home side on a draw; and when
  a semi-final was recorded, both semi-finals now have a winner and the final had neither
  home nor away side, the final has the winner of the first semi-final at home and that of
  the second away.
\<close>

theorem updateKnockout_winner:
  assumes br: "knockout d = Some k" "semiFinals k = [s1, s2]" "k_id s1 = ''sf1''" "k_id s2 = ''sf2''"
    and ne: "names_nonempty k"
    and pid: "kp_id p = Some i" "i = ''sf1'' \<or> i = ''sf2'' \<or> i = ''final''"
    and sc: "parseInt (kp_homeScore p) = Some h" "parseInt (kp_awayScore p) = Some a" "0 \<le> h" "0 \<le> a"
  shows "\<exists>k' m m' t1 t2. updateKnockout (Some d) p = Inr (k', d\<lparr>knockout := Some k'\<rparr>)
     \<and> find_match k i = Some m \<and> find_match k' i = Some m'
     \<and> k_homeScore m' = Some h \<and> k_awayScore m' = Some a
     \<and> winner m' = (if h > a then k_home m else if h < a then k_away m else k_home m)
     \<and> semiFinals k' = [t1, t2]
     \<and> (i \<noteq> ''final'' \<and> winner t1 \<noteq> None \<and> winner t2 \<noteq> None
          \<and> k_home (final k) = None \<and> k_away (final k) = None
        \<longrightarrow> k_home (final k') = winner t1 \<and> k_away (final k') = winner t2)"
proof -
  have t: "truthy v \<longleftrightarrow> v \<noteq> None" if "v \<noteq> Some []" for v
    using that by (cases v) (auto simp: truthy_def)
  from ne br(2) have n: "k_home s1 \<noteq> Some []" "k_away s1 \<noteq> Some []" "winner s1 \<noteq> Some []"
    "k_home s2 \<noteq> Some []" "k_away s2 \<noteq> Some []" "winner s2 \<noteq> Some []"
    "k_home (final k) \<noteq> Some []" "k_away (final k) \<noteq> Some []"
    by (simp_all add: names_nonempty_def)
  from pid(2) consider "i = ''sf1''" | "i = ''sf2''" | "i = ''final''" by blast
  then show ?thesis
  proof cases
    case 1
    with br pid(1) sc n show ?thesis
      by (auto simp: updateKnockout_def Let_def find_match_def falsy_def truthy_def
          record_score_def at_index_def split: option.splits)
  next
    case 2
    with br pid(1) sc n show ?thesis
      by (auto simp: updateKnockout_def Let_def find_match_def falsy_def truthy_def
          record_score_def at_index_def split: option.splits)
  next
    case 3
    with br pid(1) sc n show ?thesis
      by (auto simp: updateKnockout_def Let_def find_match_def falsy_def truthy_def
          record_score_def at_index_def split: option.splits)
  qed
qed

section \<open>Proofs: invariants behind the hypotheses\<close>

text \<open>The hypotheses on the stored data in the statements above hold of the data that the
  operations themselves produce: a successful \<^verbatim>\<open>updateMatchResult\<close> keeps the ids of the
  ledger distinct, a bracket seeded from a scoreboard without an empty team name has no empty
  name, and \<^verbatim>\<open>updateKnockout\<close> keeps the two semi-finals, their ids and the absence of empty
  names.\<close>

lemma ledger_ids_stay_distinct:
  assumes "updateMatchResult (Some d) p = Inr d'"
    and "\<And>rs. results d = Some rs \<Longrightarrow> distinct (map r_id rs)"
  shows "\<exists>rs'. results d' = Some rs' \<and> distinct (map r_id rs')"
proof (cases "results d")
  case None
  with assms(1) show ?thesis by (auto elim!: updateMatchResult_InrD)
next
  case (Some rs)
  have d: "distinct (map r_id rs)" by (rule assms(2)[OF Some])
  have "distinct (map r_id (filter (\<lambda>r. r_id r \<noteq> match_id p) rs))"
    using d by (simp add: distinct_map_filter)
  moreover have "match_id p \<notin> r_id ` set (filter (\<lambda>r. r_id r \<noteq> match_id p) rs)" by auto
  ultimately show ?thesis
    using assms(1) Some remove_first_filter[OF d, of "match_id p"]
    by (auto elim!: updateMatchResult_InrD)
qed

lemma set_sorted_standings: "fst ` set (sorted_standings lc sb) \<subseteq> fst ` set sb"
proof
  fix a assume "a \<in> fst ` set (sorted_standings lc sb)"
  then obtain b where "(a, b) \<in> set (sorted_standings lc sb)" by auto
  then have "(a, b) \<in> set (List.map_filter (\<lambda>t. map_option (Pair t) (map_of sb t)) (map fst sb))"
    unfolding sorted_standings_def by (metis mset_array_sort set_mset_mset)
  then show "a \<in> fst ` set sb"
    by (force simp: List.map_filter_def)
qed

lemma generatePlayoff_names_nonempty:
  assumes "generatePlayoff lc (Some schedule) (Some d) = Inr (k, d')"
    and "knockout d = None" "scoreboard d = Some sb" "[] \<notin> fst ` set sb"
  shows "names_nonempty k"
proof -
  have ne: "fst x \<noteq> []" if "x \<in> set (sorted_standings lc sb)" for x
    using that set_sorted_standings[of lc sb] assms(4) by (metis image_eqI subsetD)
  have "at_index (map fst (take 4 (sorted_standings lc sb))) i \<noteq> Some []" for i
    using ne by (auto simp: at_index_def dest!: in_set_takeD[OF nth_mem[of i "take 4 (sorted_standings lc sb)"]])
  with assms(1-3) show ?thesis
    by (auto simp: generatePlayoff_def Let_def names_nonempty_def new_match_def
        split: option.splits if_splits)
qed

lemma updateKnockout_preserves_shape:
  assumes "updateKnockout (Some d) p = Inr (k', d')" "knockout d = Some k"
    and "semiFinals k = [s1, s2]" "k_id s1 = ''sf1''" "k_id s2 = ''sf2''" "names_nonempty k"
  shows "\<exists>t1 t2. semiFinals k' = [t1, t2] \<and> k_id t1 = ''sf1'' \<and> k_id t2 = ''sf2''
     \<and> names_nonempty k' \<and> knockout d' = Some k'"
  using assms
  by (auto simp: updateKnockout_def Let_def find_match_def names_nonempty_def record_score_def
      at_index_def split: option.splits if_splits)

section \<open>Proofs: the example states are reached\<close>

text \<open>Each example state is what the operations store when they are called one after the
  other, beginning with the newly created tournament.\<close>

lemma example_complete_reached:
  "submit_all (map submission example_ledger) example_created = Inr example_complete"
  by code_simp

lemma example_partial_reached:
  "submit_all (map submission (butlast example_ledger)) example_created = Inr example_partial"
  by code_simp

lemma example_overfull_reached:
  "updateMatchResult (Some example_complete) (submission example_extra) = Inr example_overfull"
  by code_simp

lemma example_seeded_reached:
  "generatePlayoff codepoint_compare (Some (generateSchedule example_teams)) (Some example_complete)
     = Inr (example_bracket, example_seeded)"
  by code_simp

lemma example_semi_recorded_reached:
  "map_sum id snd (updateKnockout (Some example_seeded)
       \<lparr>kp_id = Some ''sf1'', kp_homeScore = ''2'', kp_awayScore = ''1''\<rparr>)
     = Inr example_semi_recorded"
  by code_simp

section \<open>Proofs: the statements at the example states\<close>

lemma codepoint_compare_total: "codepoint_compare a b \<le> 0 \<or> codepoint_compare b a \<le> 0"
  by (induction a b rule: codepoint_compare.induct) auto

lemma codepoint_compare_trans:
  "codepoint_compare a b \<le> 0 \<Longrightarrow> codepoint_compare b c \<le> 0 \<Longrightarrow> codepoint_compare a c \<le> 0"
proof (induction a arbitrary: b c)
  case Nil
  then show ?case by (cases c) auto
next
  case (Cons x xs)
  from Cons.prems(1) obtain y ys where b: "b = y # ys" by (cases b) auto
  from Cons.prems(2) b obtain z zs where c: "c = z # zs" by (cases c) auto
  from Cons.prems b c show ?case
    by (auto split: if_splits dest: Cons.IH)
qed


text \<open>The statement at the completed example tournament, whose ranking is \<open>A, B, C, D\<close>:
  the semi-finals are \<open>A\<close> against \<open>D\<close> and \<open>B\<close> against \<open>C\<close>.\<close>

theorem generatePlayoff_seeding_witness:
  "map fst (sorted_standings codepoint_compare
       (recompute (createInitialScoreboard example_teams []) example_ledger))
     = [''A'', ''B'', ''C'', ''D'']
   \<and> (mset (sorted_standings codepoint_compare
          (recompute (createInitialScoreboard example_teams []) example_ledger))
        = mset (recompute (createInitialScoreboard example_teams []) example_ledger)
     \<and> sorted_wrt (ranks_before codepoint_compare)
         (sorted_standings codepoint_compare
           (recompute (createInitialScoreboard example_teams []) example_ledger))
     \<and> 4 \<le> length (sorted_standings codepoint_compare
                (recompute (createInitialScoreboard example_teams []) example_ledger))
     \<and> semiFinals example_bracket =
         [\<lparr>k_id = ''sf1'',
            k_home = Some (fst (sorted_standings codepoint_compare
               (recompute (createInitialScoreboard example_teams []) example_ledger) ! 0)),
            k_away = Some (fst (sorted_standings codepoint_compare
               (recompute (createInitialScoreboard example_teams []) example_ledger) ! 3)),
            k_homeScore = None, k_awayScore = None, winner = None\<rparr>,
          \<lparr>k_id = ''sf2'',
            k_home = Some (fst (sorted_standings codepoint_compare
               (recompute (createInitialScoreboard example_teams []) example_ledger) ! 1)),
            k_away = Some (fst (sorted_standings codepoint_compare
               (recompute (createInitialScoreboard example_teams []) example_ledger) ! 2)),
            k_homeScore = None, k_awayScore = None, winner = None\<rparr>]
     \<and> final example_bracket = \<lparr>k_id = ''final'', k_home = None, k_away = None,
                   k_homeScore = None, k_awayScore = None, winner = None\<rparr>
     \<and> example_seeded = example_complete\<lparr>knockout := Some example_bracket\<rparr>)"
proof -
  let ?sb = "recompute (createInitialScoreboard example_teams []) example_ledger"
  have 1: "\<forall>a b. codepoint_compare a b \<le> 0 \<or> codepoint_compare b a \<le> 0"
    using codepoint_compare_total by blast
  have 2: "\<forall>a b c. codepoint_compare a b \<le> 0 \<and> codepoint_compare b c \<le> 0
             \<longrightarrow> codepoint_compare a c \<le> 0"
    using codepoint_compare_trans by blast
  have 3: "knockout example_complete = None" by (simp add: example_complete_def)
  have 4: "scoreboard example_complete = Some ?sb" by (simp add: example_complete_def)
  have 5: "distinct (map fst ?sb)" by code_simp
  have 6: "generatePlayoff codepoint_compare (Some (generateSchedule example_teams))
             (Some example_complete) = Inr (example_bracket, example_seeded)"
    by code_simp
  have 7: "map fst (sorted_standings codepoint_compare ?sb) = [''A'', ''B'', ''C'', ''D'']"
    by code_simp
  show ?thesis
    by (rule conjI[OF 7 generatePlayoff_seeding[OF 1 2 3 4 5 6]])
qed



text \<open>The statement at the seeded example tournament.\<close>

theorem generatePlayoff_idempotent_witness:
  "generatePlayoff codepoint_compare (Some (generateSchedule example_teams)) (Some example_seeded)
     = Inr (example_bracket, example_seeded)"
proof -
  have "knockout example_seeded = Some example_bracket" by (simp add: example_seeded_def)
  then show ?thesis by (rule generatePlayoff_idempotent)
qed

text \<open>
  Claim C9 at the home score \<^verbatim>\<open>3.7\<close>, submitted for fixture \<^verbatim>\<open>r0-m0\<close> of the newly created
  example tournament: \<^verbatim>\<open>parseInt\<close> reads the leading \<^verbatim>\<open>3\<close>, the submission is accepted, and
  the ledger and the scoreboard change.
\<close>

theorem updateMatchResult_accepts_fraction:
  "updateMatchResult (Some example_created) example_fraction =
     Inr \<lparr>scoreboard = Some (recompute (createInitialScoreboard example_teams [])
             [\<lparr>r_id = ''r0-m0'', r_home = ''A'', r_away = ''D'', r_homeScore = 3, r_awayScore = 1\<rparr>]),
          results = Some
             [\<lparr>r_id = ''r0-m0'', r_home = ''A'', r_away = ''D'', r_homeScore = 3, r_awayScore = 1\<rparr>],
          knockout = None\<rparr>"
  by code_simp

text \<open>The statement at the example bracket in which \<^verbatim>\<open>sf1\<close> was recorded as 2-1 and
  \<^verbatim>\<open>sf2\<close> is now submitted as a 0-0 draw: both home sides win, and the final is \<open>A\<close> against
  \<open>B\<close>.\<close>

theorem updateKnockout_winner_witness:
  "(\<exists>k' d'. updateKnockout (Some example_semi_recorded) example_draw = Inr (k', d')
       \<and> map winner (semiFinals k') = [Some ''A'', Some ''B'']
       \<and> k_home (final k') = Some ''A'' \<and> k_away (final k') = Some ''B'')
   \<and> (\<exists>k' m m' t1 t2.
        updateKnockout (Some example_semi_recorded) example_draw
          = Inr (k', example_semi_recorded\<lparr>knockout := Some k'\<rparr>)
      \<and> find_match (the (knockout example_semi_recorded)) ''sf2'' = Some m
      \<and> find_match k' ''sf2'' = Some m'
      \<and> k_homeScore m' = Some 0 \<and> k_awayScore m' = Some 0
      \<and> winner m' = (if (0::int) > 0 then k_home m else if (0::int) < 0 then k_away m else k_home m)
      \<and> semiFinals k' = [t1, t2]
      \<and> (''sf2'' \<noteq> ''final'' \<and> winner t1 \<noteq> None \<and> winner t2 \<noteq> None
          \<and> k_home (final (the (knockout example_semi_recorded))) = None
          \<and> k_away (final (the (knockout example_semi_recorded))) = None
        \<longrightarrow> k_home (final k') = winner t1 \<and> k_away (final k') = winner t2))"
proof -
  let ?k = "the (knockout example_semi_recorded)"
  let ?s1 = "record_score 2 1 (new_match ''sf1'' (Some ''A'') (Some ''D''))"
  let ?s2 = "new_match ''sf2'' (Some ''B'') (Some ''C'')"
  have 1: "knockout example_semi_recorded = Some ?k" by (simp add: example_semi_recorded_def)
  have 2: "semiFinals ?k = [?s1, ?s2]" by (simp add: example_semi_recorded_def)
  have 3: "k_id ?s1 = ''sf1''" by (simp add: record_score_def new_match_def)
  have 4: "k_id ?s2 = ''sf2''" by (simp add: new_match_def)
  have 5: "names_nonempty ?k" by code_simp
  have 6: "kp_id example_draw = Some ''sf2''" by (simp add: example_draw_def)
  have 7: "''sf2'' = ''sf1'' \<or> ''sf2'' = ''sf2'' \<or> ''sf2'' = ''final''" by simp
  have 8: "parseInt (kp_homeScore example_draw) = Some 0" by code_simp
  have 9: "parseInt (kp_awayScore example_draw) = Some 0" by code_simp
  have e: "\<exists>k' d'. updateKnockout (Some example_semi_recorded) example_draw = Inr (k', d')
       \<and> map winner (semiFinals k') = [Some ''A'', Some ''B'']
       \<and> k_home (final k') = Some ''A'' \<and> k_away (final k') = Some ''B''"
  proof -
    have "case updateKnockout (Some example_semi_recorded) example_draw of
            Inl _ \<Rightarrow> False
          | Inr (k', d') \<Rightarrow> map winner (semiFinals k') = [Some ''A'', Some ''B'']
              \<and> k_home (final k') = Some ''A'' \<and> k_away (final k') = Some ''B''"
      by code_simp
    then show ?thesis by (auto split: sum.splits)
  qed
  show ?thesis
    by (rule conjI[OF e updateKnockout_winner[OF 1 2 3 4 5 6 7 8 9]]) simp_all
qed

text \<open>The statement at a tournament with five of its six results, to which a result between
  the unknown teams \<open>X\<close> and \<open>Y\<close> is submitted under the id \<^verbatim>\<open>friendly\<close>: the ledger then has
  six entries and the bracket is no longer refused as incomplete.\<close>

theorem updateMatchResult_unvalidated_witness:
  "\<exists>d' sb' rs'. updateMatchResult (Some example_partial) example_unknown = Inr d'
      \<and> results d' = Some rs' \<and> scoreboard d' = Some sb'
      \<and> rs' = butlast example_ledger
               @ [\<lparr>r_id = ''friendly'', r_home = ''X'', r_away = ''Y'',
                    r_homeScore = 1, r_awayScore = 1\<rparr>]
      \<and> ''X'' \<in> fst ` set sb' \<and> ''Y'' \<in> fst ` set sb'
      \<and> map_of sb' ''X'' =
             Some \<lparr>played = 1, wins = 0, draws = 1, losses = 0, goalsFor = 1, goalsAgainst = 1,
                   goalDifference = 0, points = 1, logo = None\<rparr>
      \<and> map_of sb' ''Y'' =
             Some \<lparr>played = 1, wins = 0, draws = 1, losses = 0, goalsFor = 1, goalsAgainst = 1,
                   goalDifference = 0, points = 1, logo = None\<rparr>
      \<and> length rs' = totalMatches (generateSchedule example_teams)
      \<and> generatePlayoff codepoint_compare (Some (generateSchedule example_teams)) (Some d')
           \<noteq> Inl GroupStageIncomplete"
proof -
  let ?sb = "recompute (createInitialScoreboard example_teams []) (butlast example_ledger)"
  let ?rs = "butlast example_ledger"
  have n: "p_home example_unknown = Some ''X''" "p_away example_unknown = Some ''Y''"
    "''X'' \<noteq> []" "''Y'' \<noteq> []" "''X'' \<noteq> ''Y''" "''X'' \<noteq> ''__proto__''" "''Y'' \<noteq> ''__proto__''"
    by (simp_all add: example_unknown_def)
  have s: "parseInt (p_homeScore example_unknown) = Some 1"
    "parseInt (p_awayScore example_unknown) = Some 1" "(0::int) \<le> 1" "(0::int) \<le> 1"
    by code_simp+
  have st: "scoreboard example_partial = Some ?sb" "results example_partial = Some ?rs"
    by (simp_all add: example_partial_def)
  have k: "knockout example_partial = None" by (simp add: example_partial_def)
  have u1: "''X'' \<notin> fst ` set ?sb \<and> (\<forall>r\<in>set ?rs. r_home r \<noteq> ''X'' \<and> r_away r \<noteq> ''X'')"
    by (simp add: keys_recompute keys_createInitialScoreboard example_teams_def example_ledger_def)
  have u2: "''Y'' \<notin> fst ` set ?sb \<and> (\<forall>r\<in>set ?rs. r_home r \<noteq> ''Y'' \<and> r_away r \<noteq> ''Y'')"
    by (simp add: keys_recompute keys_createInitialScoreboard example_teams_def example_ledger_def)
  have m: "match_id example_unknown = ''friendly''" by code_simp
  have rem: "remove_first (\<lambda>r. r_id r = ''friendly'') ?rs = ?rs" by code_simp
  have tot: "totalMatches (generateSchedule example_teams) = 6" by code_simp
  have len: "length ?rs = 5" by code_simp
  let ?rs' = "?rs @ [\<lparr>r_id = ''friendly'', r_home = ''X'', r_away = ''Y'',
                    r_homeScore = 1, r_awayScore = 1\<rparr>]"
  from updateMatchResult_unvalidated[OF n s st] u1 u2 k obtain d' sb' where
    a: "updateMatchResult (Some example_partial) example_unknown = Inr d'"
      "results d' = Some ?rs'" "scoreboard d' = Some sb'"
      "''X'' \<in> fst ` set sb'" "''Y'' \<in> fst ` set sb'"
    and b: "map_of sb' ''X'' =
             Some \<lparr>played = 1, wins = 0, draws = 1, losses = 0, goalsFor = 1, goalsAgainst = 1,
                   goalDifference = 0, points = 1, logo = None\<rparr>"
      "map_of sb' ''Y'' =
             Some \<lparr>played = 1, wins = 0, draws = 1, losses = 0, goalsFor = 1, goalsAgainst = 1,
                   goalDifference = 0, points = 1, logo = None\<rparr>"
    and c: "\<forall>lc schedule.
              generatePlayoff lc (Some schedule) (Some d') = Inl GroupStageIncomplete
                \<longleftrightarrow> length ?rs + 1 < totalMatches schedule"
    unfolding m rem by auto
  from c len tot
  have g: "generatePlayoff codepoint_compare (Some (generateSchedule example_teams)) (Some d')
           \<noteq> Inl GroupStageIncomplete"
    by simp
  have l: "length ?rs' = totalMatches (generateSchedule example_teams)" using len tot by simp
  from a b g l show ?thesis by blast
qed

text \<open>The statement at the resubmission of fixture \<^verbatim>\<open>r0-m0\<close>, first recorded as 1-0 and
  now as 2-2, to the completed example tournament: team \<open>A\<close> then has two wins and a draw,
  seven points instead of nine.\<close>

theorem updateMatchResult_replaces_witness:
  "(map_of (the (scoreboard example_resubmitted)) ''A'' =
      Some \<lparr>played = 3, wins = 2, draws = 1, losses = 0, goalsFor = 4, goalsAgainst = 2,
            goalDifference = 2, points = 7, logo = None\<rparr>
    \<and> tally (the (results example_resubmitted)) ''A'' None =
      \<lparr>played = 3, wins = 2, draws = 1, losses = 0, goalsFor = 4, goalsAgainst = 2,
       goalDifference = 2, points = 7, logo = None\<rparr>)
   \<and> (\<exists>rs' sb' hs as. results example_resubmitted = Some rs'
      \<and> length rs' = length example_ledger
      \<and> distinct (map r_id rs')
      \<and> parseInt (p_homeScore example_resubmit) = Some hs
      \<and> parseInt (p_awayScore example_resubmit) = Some as
      \<and> rs' = filter (\<lambda>r. r_id r \<noteq> match_id example_resubmit) example_ledger
               @ [\<lparr>r_id = match_id example_resubmit, r_home = the (p_home example_resubmit),
                    r_away = the (p_away example_resubmit), r_homeScore = hs, r_awayScore = as\<rparr>]
      \<and> (\<forall>r\<in>set rs'. r_id r = match_id example_resubmit
             \<longrightarrow> r_homeScore r = hs \<and> r_awayScore r = as)
      \<and> scoreboard example_resubmitted =
          Some (recompute (case scoreboard example_complete of Some sb \<Rightarrow> sb | None \<Rightarrow> []) rs')
      \<and> scoreboard example_resubmitted = Some sb'
      \<and> fst ` set sb' = fst ` set (case scoreboard example_complete of Some sb \<Rightarrow> sb | None \<Rightarrow> [])
                          \<union> r_home ` set rs' \<union> r_away ` set rs'
      \<and> (\<forall>(t, r)\<in>set sb'. r = tally rs' t (logo r))
      \<and> (\<forall>x y. updateMatchResult
                  (Some (example_complete\<lparr>results := Some (map (\<lambda>r. if r_id r = match_id example_resubmit
                                                     then r\<lparr>r_homeScore := x, r_awayScore := y\<rparr>
                                                     else r) example_ledger)\<rparr>)) example_resubmit
                 = Inr example_resubmitted))"
proof -
  have 1: "updateMatchResult (Some example_complete) example_resubmit = Inr example_resubmitted"
    by code_simp
  have 2: "results example_complete = Some example_ledger"
    by (simp add: example_complete_def)
  have 3: "distinct (map r_id example_ledger)"
    by code_simp
  have 4: "match_id example_resubmit \<in> r_id ` set example_ledger"
    by (simp add: match_id_def example_resubmit_def example_ledger_def truthy_def)
  have 5: "map_of (the (scoreboard example_resubmitted)) ''A'' =
      Some \<lparr>played = 3, wins = 2, draws = 1, losses = 0, goalsFor = 4, goalsAgainst = 2,
            goalDifference = 2, points = 7, logo = None\<rparr>"
    by code_simp
  have 6: "tally (the (results example_resubmitted)) ''A'' None =
      \<lparr>played = 3, wins = 2, draws = 1, losses = 0, goalsFor = 4, goalsAgainst = 2,
       goalDifference = 2, points = 7, logo = None\<rparr>"
    by code_simp
  show ?thesis
    by (rule conjI[OF conjI[OF 5 6] updateMatchResult_replaces[OF 1 2 3 4]])
qed

end
